theory Spec2Isabelle
  imports Complex_Main "HOL-Library.AList"
begin

section \<open>Data model (core/types.ts)\<close>

text \<open>
  A \<open>TaskNode\<close> is a record with the fields \<open>id\<close>, \<open>title\<close>, \<open>description?\<close>,
  \<open>priority?\<close>, \<open>effort_estimate?\<close>, \<open>children\<close> and \<open>dependencies?\<close>. Optional fields
  are options. The field \<open>id\<close> is called \<open>node_id\<close> here, since \<open>id\<close> is the identity
  function of HOL. JavaScript numbers are modelled as real numbers; where the source can
  produce \<open>NaN\<close> by dividing by zero the model says so explicitly.
\<close>

datatype Priority = P0 | P1 | P2

datatype TaskNode = TaskNode
  (node_id: string)
  (title: string)
  (description: "string option")
  (priority: "Priority option")
  (effort_estimate: "real option")
  (children: "TaskNode list")
  (dependencies: "string list option")

text \<open>
  \<open>EvaluationResult.details\<close> has type \<open>any\<close> in the source; every metric stores its own
  shape of payload, one constructor per shape.
\<close>

datatype Details =
    CycleDetails bool
  | EdgeDetails nat nat
  | VarianceDetails real "nat list option"
  | LeafCountDetails nat
  | PairDetails nat nat "real option" "(nat \<times> nat \<times> real option) list"
  | EffortDetails nat "real \<times> real" "(string \<times> real \<times> real) list"
  | RatingDetails nat "(string \<times> int \<times> real) list"

record EvaluationResult =
  score :: real
  details :: "Details option"

section \<open>Tree traversals (metrics/structural.ts)\<close>

text \<open>
  A JavaScript \<open>Map\<close> iterates in the order of first insertion, and \<open>set\<close> on a key that
  is present replaces the value in place. This is \<open>AList.update\<close> on an association list.
\<close>

type_synonym ('k, 'v) js_map = "('k \<times> 'v) list"

definition has :: "('k, 'v) js_map \<Rightarrow> 'k \<Rightarrow> bool" where
  "has m k = (map_of m k \<noteq> None)"

definition keys :: "('k, 'v) js_map \<Rightarrow> 'k list" where
  "keys m = map fst m"

definition vals :: "('k, 'v) js_map \<Rightarrow> 'v list" where
  "vals m = map snd m"

fun traverseNodes :: "TaskNode \<Rightarrow> (string, TaskNode) js_map \<Rightarrow> (string, TaskNode) js_map"
  and traverseNodesEach :: "TaskNode list \<Rightarrow> (string, TaskNode) js_map \<Rightarrow> (string, TaskNode) js_map"
where
  "traverseNodes (TaskNode i t d p e cs ds) nodes =
     traverseNodesEach cs (AList.update i (TaskNode i t d p e cs ds) nodes)"
| "traverseNodesEach [] nodes = nodes"
| "traverseNodesEach (child # rest) nodes = traverseNodesEach rest (traverseNodes child nodes)"

definition getAllNodes :: "TaskNode \<Rightarrow> (string, TaskNode) js_map" where
  "getAllNodes tree = traverseNodes tree []"

fun traverseDepths :: "TaskNode \<Rightarrow> nat \<Rightarrow> (string, nat) js_map \<Rightarrow> (string, nat) js_map"
  and traverseDepthsEach :: "TaskNode list \<Rightarrow> nat \<Rightarrow> (string, nat) js_map \<Rightarrow> (string, nat) js_map"
where
  "traverseDepths (TaskNode i t d p e cs ds) depth depths =
     traverseDepthsEach cs (depth + 1) (AList.update i depth depths)"
| "traverseDepthsEach [] depth depths = depths"
| "traverseDepthsEach (child # rest) depth depths =
     traverseDepthsEach rest depth (traverseDepths child depth depths)"

definition getNodeDepths :: "TaskNode \<Rightarrow> (string, nat) js_map" where
  "getNodeDepths tree = traverseDepths tree 0 []"

section \<open>Hierarchy consistency (metrics/structural.ts)\<close>

text \<open>
  \<open>depths.get(k)!\<close> is \<open>undefined\<close> for an absent key, and a comparison with \<open>undefined\<close>
  is false.
\<close>

definition depthGreater :: "nat option \<Rightarrow> nat option \<Rightarrow> bool" where
  "depthGreater vDepth uDepth =
     (case (vDepth, uDepth) of (Some v, Some u) \<Rightarrow> v > u | _ \<Rightarrow> False)"

definition childEdge :: "(string, nat) js_map \<Rightarrow> nat option \<Rightarrow> TaskNode \<Rightarrow> nat \<times> nat \<Rightarrow> nat \<times> nat" where
  "childEdge depths uDepth child acc =
     (case acc of (totalEdges, consistentEdges) \<Rightarrow>
        (totalEdges + 1,
         if depthGreater (map_of depths (node_id child)) uDepth
         then consistentEdges + 1 else consistentEdges))"

definition dependencyEdge ::
  "(string, TaskNode) js_map \<Rightarrow> (string, nat) js_map \<Rightarrow> nat option \<Rightarrow> string \<Rightarrow> nat \<times> nat \<Rightarrow> nat \<times> nat" where
  "dependencyEdge nodes depths uDepth depId acc =
     (case acc of (totalEdges, consistentEdges) \<Rightarrow>
        if has nodes depId
        then (totalEdges + 1,
              if depthGreater (map_of depths depId) uDepth
              then consistentEdges + 1 else consistentEdges)
        else (totalEdges, consistentEdges))"

definition nodeEdges ::
  "(string, TaskNode) js_map \<Rightarrow> (string, nat) js_map \<Rightarrow> TaskNode \<Rightarrow> nat \<times> nat \<Rightarrow> nat \<times> nat" where
  "nodeEdges nodes depths node acc =
     (let uDepth = map_of depths (node_id node);
          acc1 = fold (childEdge depths uDepth) (children node) acc
      in case dependencies node of
           None \<Rightarrow> acc1
         | Some deps \<Rightarrow> fold (dependencyEdge nodes depths uDepth) deps acc1)"

definition edgeCounts :: "TaskNode \<Rightarrow> nat \<times> nat" where
  "edgeCounts tree =
     (let nodes = getAllNodes tree; depths = getNodeDepths tree
      in fold (nodeEdges nodes depths) (vals nodes) (0, 0))"

definition computeHierarchyConsistency :: "TaskNode \<Rightarrow> EvaluationResult" where
  "computeHierarchyConsistency tree =
     (case edgeCounts tree of (totalEdges, consistentEdges) \<Rightarrow>
        if totalEdges = 0 then \<lparr>score = 1, details = None\<rparr>
        else \<lparr>score = real consistentEdges / real totalEdges,
              details = Some (EdgeDetails totalEdges consistentEdges)\<rparr>)"

section \<open>Hierarchy balance (metrics/structural.ts)\<close>

definition childCounts :: "TaskNode \<Rightarrow> nat list" where
  "childCounts tree =
     map (\<lambda>node. length (children node))
       (filter (\<lambda>node. length (children node) > 0) (vals (getAllNodes tree)))"

definition VAR_MAX :: real where
  "VAR_MAX = 5"

definition computeHierarchyBalance :: "TaskNode \<Rightarrow> EvaluationResult" where
  "computeHierarchyBalance tree =
     (let counts = childCounts tree in
      if length counts < 2 then \<lparr>score = 1, details = Some (VarianceDetails 0 None)\<rparr>
      else
        let mean = foldl (\<lambda>a b. a + real b) 0 counts / real (length counts);
            variance = foldl (\<lambda>a b. a + (real b - mean) ^ 2) 0 counts / real (length counts);
            score = 1 - min 1 (variance / VAR_MAX)
        in \<lparr>score = score, details = Some (VarianceDetails variance (Some counts))\<rparr>)"

section \<open>Acyclicity (metrics/structural.ts)\<close>

text \<open>
  The adjacency map is a \<open>Map\<close> from ids to arrays of ids. \<open>adj.get(k)?.push(v)\<close>
  appends to the array stored under \<open>k\<close> and does nothing when the key is absent. The
  sets \<open>visited\<close> and \<open>recursionStack\<close> and the flag \<open>hasCycle\<close> are the variables the
  closure \<open>dfs\<close> shares with its caller; they are passed as a state record. The loop
  over the neighbours returns, with the state, whether it executed the \<open>return\<close> of the
  source, which skips \<open>recursionStack.delete(u)\<close>.
\<close>

type_synonym Adj = "(string, string list) js_map"

definition pushTo :: "Adj \<Rightarrow> string \<Rightarrow> string \<Rightarrow> Adj" where
  "pushTo adj k v = (case map_of adj k of None \<Rightarrow> adj | Some vs \<Rightarrow> AList.update k (vs @ [v]) adj)"

definition addNodeEdges :: "(string, TaskNode) js_map \<Rightarrow> TaskNode \<Rightarrow> Adj \<Rightarrow> Adj" where
  "addNodeEdges nodes node adj =
     (let adj1 = fold (\<lambda>child a. pushTo a (node_id node) (node_id child)) (children node) adj
      in case dependencies node of
           None \<Rightarrow> adj1
         | Some deps \<Rightarrow>
             fold (\<lambda>depId a. if has nodes depId then pushTo a (node_id node) depId else a) deps adj1)"

definition buildGraph :: "(string, TaskNode) js_map \<Rightarrow> Adj" where
  "buildGraph nodes =
     fold (addNodeEdges nodes) (vals nodes) (fold (\<lambda>k a. AList.update k [] a) (keys nodes) [])"

record DfsState =
  visited :: "string set"
  recursionStack :: "string set"
  hasCycle :: bool

definition neighbors :: "Adj \<Rightarrow> string \<Rightarrow> string list" where
  "neighbors adj u = (case map_of adj u of None \<Rightarrow> [] | Some vs \<Rightarrow> vs)"

definition enter :: "string \<Rightarrow> DfsState \<Rightarrow> DfsState" where
  "enter u s = s\<lparr>visited := insert u (visited s), recursionStack := insert u (recursionStack s)\<rparr>"

function dfs :: "Adj \<Rightarrow> string \<Rightarrow> DfsState \<Rightarrow> DfsState"
  and dfsNeighbors :: "Adj \<Rightarrow> string list \<Rightarrow> DfsState \<Rightarrow> DfsState \<times> bool"
where
  "dfs adj u s =
     (if hasCycle s then s
      else case dfsNeighbors adj (neighbors adj u) (enter u s) of
             (s', returned) \<Rightarrow>
               if returned then s' else s'\<lparr>recursionStack := recursionStack s' - {u}\<rparr>)"
| "dfsNeighbors adj [] s = (s, False)"
| "dfsNeighbors adj (v # vs) s =
     (if v \<notin> visited s then dfsNeighbors adj vs (dfs adj v s)
      else if v \<in> recursionStack s then (s\<lparr>hasCycle := True\<rparr>, True)
      else dfsNeighbors adj vs s)"
  by pat_completeness auto

definition targets :: "Adj \<Rightarrow> string set" where
  "targets adj = (\<Union>e\<in>set adj. set (snd e))"

lemma dfs_visited_mono_dom:
  "dfs_dfsNeighbors_dom (Inl (adj, u, s)) \<Longrightarrow> visited s \<subseteq> visited (dfs adj u s)"
  "dfs_dfsNeighbors_dom (Inr (adj, vs, s)) \<Longrightarrow> visited s \<subseteq> visited (fst (dfsNeighbors adj vs s))"
proof (induction adj u s and adj vs s rule: dfs_dfsNeighbors.pinduct)
  case (1 adj u s)
  then show ?case
    by (auto simp: dfs.psimps enter_def split: prod.splits)
next
  case (2 adj s)
  then show ?case by (simp add: dfsNeighbors.psimps)
next
  case (3 adj v vs s)
  then show ?case
    by (auto simp: dfsNeighbors.psimps)
qed

definition dfsMeasure :: "(Adj \<times> string \<times> DfsState) + (Adj \<times> string list \<times> DfsState) \<Rightarrow> nat \<times> nat" where
  "dfsMeasure x =
     (case x of
        Inl (adj, u, s) \<Rightarrow>
          (2 * card ((targets adj \<union> {u}) - visited s) + (if u \<in> visited s then 2 else 0), 0)
      | Inr (adj, vs, s) \<Rightarrow>
          (2 * card ((targets adj \<union> set vs) - visited s) + 1, length vs))"

lemma finite_targets: "finite (targets adj)"
  by (simp add: targets_def)

lemma neighbors_targets: "set (neighbors adj u) \<subseteq> targets adj"
proof (cases "map_of adj u")
  case None
  then show ?thesis by (simp add: neighbors_def)
next
  case (Some vs)
  then have "(u, vs) \<in> set adj" by (rule map_of_SomeD)
  with Some show ?thesis by (force simp: neighbors_def targets_def)
qed

termination dfs
proof (relation "inv_image (less_than <*lex*> less_than) dfsMeasure")
  show "wf (inv_image (less_than <*lex*> less_than) dfsMeasure)"
    by (intro wf_inv_image wf_lex_prod wf_less_than)
next
  fix adj u and s :: DfsState
  assume "\<not> hasCycle s"
  have eq: "targets adj \<union> set (neighbors adj u) = targets adj"
    using neighbors_targets [of adj u] by auto
  show "(Inr (adj, neighbors adj u, enter u s), Inl (adj, u, s))
        \<in> inv_image (less_than <*lex*> less_than) dfsMeasure"
  proof (cases "u \<in> visited s")
    case True
    then have "targets adj - visited (enter u s) = (targets adj \<union> {u}) - visited s"
      by (auto simp: enter_def)
    with True show ?thesis by (simp add: dfsMeasure_def eq)
  next
    case False
    then have "(targets adj \<union> {u}) - visited s = insert u (targets adj - visited (enter u s))"
      by (auto simp: enter_def)
    moreover have "u \<notin> targets adj - visited (enter u s)" by (simp add: enter_def)
    ultimately have "card ((targets adj \<union> {u}) - visited s) = Suc (card (targets adj - visited (enter u s)))"
      by (simp add: finite_targets)
    with False show ?thesis by (simp add: dfsMeasure_def eq)
  qed
next
  fix adj v vs and s :: DfsState
  assume "v \<notin> visited s"
  have "card ((targets adj \<union> {v}) - visited s) \<le> card ((targets adj \<union> set (v # vs)) - visited s)"
    by (intro card_mono) (auto simp: finite_targets)
  with \<open>v \<notin> visited s\<close>
  show "(Inl (adj, v, s), Inr (adj, v # vs, s)) \<in> inv_image (less_than <*lex*> less_than) dfsMeasure"
    by (simp add: dfsMeasure_def)
next
  fix adj v vs and s :: DfsState
  assume "v \<notin> visited s" and dom: "dfs_dfsNeighbors_dom (Inl (adj, v, s))"
  from dfs_visited_mono_dom(1) [OF dom]
  have "card ((targets adj \<union> set vs) - visited (dfs adj v s))
        \<le> card ((targets adj \<union> set (v # vs)) - visited s)"
    by (intro card_mono) (auto simp: finite_targets)
  then show "(Inr (adj, vs, dfs adj v s), Inr (adj, v # vs, s))
        \<in> inv_image (less_than <*lex*> less_than) dfsMeasure"
    by (auto simp: dfsMeasure_def)
next
  fix adj v vs and s :: DfsState
  have "card ((targets adj \<union> set vs) - visited s)
        \<le> card ((targets adj \<union> set (v # vs)) - visited s)"
    by (intro card_mono) (auto simp: finite_targets)
  then show "(Inr (adj, vs, s), Inr (adj, v # vs, s))
        \<in> inv_image (less_than <*lex*> less_than) dfsMeasure"
    by (auto simp: dfsMeasure_def)
qed

declare dfs.simps [simp del]

fun dfsRoots :: "Adj \<Rightarrow> string list \<Rightarrow> DfsState \<Rightarrow> DfsState" where
  "dfsRoots adj [] s = s"
| "dfsRoots adj (k # ks) s =
     (let s1 = (if k \<notin> visited s then dfs adj k s else s)
      in if hasCycle s1 then s1 else dfsRoots adj ks s1)"

definition initialDfsState :: DfsState where
  "initialDfsState = \<lparr>visited = {}, recursionStack = {}, hasCycle = False\<rparr>"

definition computeAcyclicity :: "TaskNode \<Rightarrow> EvaluationResult" where
  "computeAcyclicity tree =
     (let nodes = getAllNodes tree;
          adj = buildGraph nodes;
          s = dfsRoots adj (keys nodes) initialDfsState
      in \<lparr>score = (if hasCycle s then 0 else 1), details = Some (CycleDetails (hasCycle s))\<rparr>)"

section \<open>External collaborators (llm/client.ts)\<close>

text \<open>
  \<open>chat\<close> and \<open>embed\<close> return promises that may reject, and nothing says that two calls
  with the same argument give the same answer. A call is therefore a function of the
  state of the outside world \<open>'w\<close> that returns a failure or a value together with the
  new state. Every \<open>await\<close> of the source threads that state, and a failure ends the
  computation at once, as a rejected promise that is not caught does.
\<close>

datatype Role = System | User | Assistant

record LLMMessage =
  role :: Role
  content :: string

datatype Failure =
    ClientFailure string
  | VectorsLengthMismatch
  | MalformedResponse string

type_synonym ('a, 'w) io = "'w \<Rightarrow> (Failure + 'a) \<times> 'w"

type_synonym 'w LLMClient = "LLMMessage list \<Rightarrow> (string, 'w) io"

type_synonym 'w EmbeddingClient = "string \<Rightarrow> (real list, 'w) io"

text \<open>
  The functions of the JavaScript platform and the prompt texts (llm/prompts.ts) that the
  service uses are parameters of the model, and so is \<open>cleanAndParseJSON\<close>, which rests
  on \<open>JSON.parse\<close>. \<open>parseFloat\<close> and \<open>parseInt\<close> (radix 10) return \<open>None\<close> where
  JavaScript returns \<open>NaN\<close>.
\<close>

text \<open>
  An issue of the aggregator is one of six message templates; five of them interpolate
  the score of a metric (printed with \<open>toFixed(2)\<close> in the source; the model keeps the
  number).
\<close>

datatype Issue =
    CyclicDependency
  | LowHierarchy real
  | LowBalance real
  | LowGranularity real
  | LowRedundancy real
  | LowExecutability real

record Platform =
  parseFloat :: "string \<Rightarrow> real option"
  parseInt :: "string \<Rightarrow> int option"
  getEstimateEffortPrompt :: "TaskNode \<Rightarrow> string"
  getJudgeExecutabilityPrompt :: "TaskNode \<Rightarrow> string"
  getGenerateTaskTreePrompt :: "string \<Rightarrow> string"
  getRefineTaskTreePrompt :: "TaskNode \<Rightarrow> Issue list \<Rightarrow> real \<times> real \<times> real \<Rightarrow> string"
  cleanAndParseJSON :: "string \<Rightarrow> Failure + TaskNode"

definition isSpace :: "char \<Rightarrow> bool" where
  "isSpace c = (c \<in> set [CHR '' '', CHR 0x09, CHR 0x0A, CHR 0x0B, CHR 0x0C, CHR 0x0D])"

definition trim :: "string \<Rightarrow> string" where
  "trim s = rev (dropWhile isSpace (rev (dropWhile isSpace s)))"

definition userMessage :: "string \<Rightarrow> LLMMessage list" where
  "userMessage prompt = [\<lparr>role = User, content = prompt\<rparr>]"

section \<open>Collecting nodes and leaves (metrics/semantic.ts)\<close>

text \<open>Here \<open>getAllNodes\<close> pushes onto an array; it is called \<open>getAllNodesArray\<close>.\<close>

fun collectNodes :: "TaskNode \<Rightarrow> TaskNode list \<Rightarrow> TaskNode list"
  and collectNodesEach :: "TaskNode list \<Rightarrow> TaskNode list \<Rightarrow> TaskNode list"
where
  "collectNodes (TaskNode i t d p e cs ds) nodes =
     collectNodesEach cs (nodes @ [TaskNode i t d p e cs ds])"
| "collectNodesEach [] nodes = nodes"
| "collectNodesEach (child # rest) nodes = collectNodesEach rest (collectNodes child nodes)"

definition getAllNodesArray :: "TaskNode \<Rightarrow> TaskNode list" where
  "getAllNodesArray tree = collectNodes tree []"

fun collectLeaves :: "TaskNode \<Rightarrow> TaskNode list \<Rightarrow> TaskNode list"
  and collectLeavesEach :: "TaskNode list \<Rightarrow> TaskNode list \<Rightarrow> TaskNode list"
where
  "collectLeaves (TaskNode i t d p e cs ds) leaves =
     (if length cs = 0 then leaves @ [TaskNode i t d p e cs ds]
      else collectLeavesEach cs leaves)"
| "collectLeavesEach [] leaves = leaves"
| "collectLeavesEach (child # rest) leaves = collectLeavesEach rest (collectLeaves child leaves)"

definition getLeafNodes :: "TaskNode \<Rightarrow> TaskNode list" where
  "getLeafNodes tree = collectLeaves tree []"

section \<open>Cosine similarity and redundancy (metrics/semantic.ts)\<close>

text \<open>
  The quotient of the source is \<open>NaN\<close> when the denominator is zero (then a vector is
  zero, and so is the dot product); \<open>NaN\<close> is \<open>None\<close>, and \<open>NaN > threshold\<close> is false.
\<close>

definition similarityLoop :: "real list \<Rightarrow> real list \<Rightarrow> real \<times> real \<times> real" where
  "similarityLoop a b =
     fold (\<lambda>i acc. case acc of (dotProduct, normA, normB) \<Rightarrow>
             (dotProduct + a ! i * b ! i, normA + a ! i * a ! i, normB + b ! i * b ! i))
       [0..<length a] (0, 0, 0)"

definition quotient :: "real \<Rightarrow> real \<Rightarrow> real option" where
  "quotient x y = (if y = 0 then None else Some (x / y))"

definition cosineSimilarity :: "real list \<Rightarrow> real list \<Rightarrow> Failure + real option" where
  "cosineSimilarity a b =
     (if length a \<noteq> length b then Inl VectorsLengthMismatch
      else case similarityLoop a b of (dotProduct, normA, normB) \<Rightarrow>
             Inr (quotient dotProduct (sqrt normA * sqrt normB)))"

definition exceeds :: "real option \<Rightarrow> real \<Rightarrow> bool" where
  "exceeds similarity threshold =
     (case similarity of None \<Rightarrow> False | Some x \<Rightarrow> x > threshold)"

definition nodeText :: "TaskNode \<Rightarrow> string" where
  "nodeText node =
     trim (title node @ '' '' @ (case description node of None \<Rightarrow> [] | Some d \<Rightarrow> d))"

fun embedNodes :: "'w EmbeddingClient \<Rightarrow> TaskNode list \<Rightarrow> real list list \<Rightarrow> (real list list, 'w) io" where
  "embedNodes embedClient [] embeddings w = (Inr embeddings, w)"
| "embedNodes embedClient (node # rest) embeddings w =
     (case embedClient (nodeText node) w of
        (Inl err, w1) \<Rightarrow> (Inl err, w1)
      | (Inr embedding, w1) \<Rightarrow> embedNodes embedClient rest (embeddings @ [embedding]) w1)"

type_synonym SimilarPair = "nat \<times> nat \<times> real option"

type_synonym PairCounters = "nat \<times> nat \<times> SimilarPair list"

fun innerPairs :: "real list list \<Rightarrow> real \<Rightarrow> nat \<Rightarrow> nat list \<Rightarrow> PairCounters \<Rightarrow> Failure + PairCounters" where
  "innerPairs embeddings threshold i [] acc = Inr acc"
| "innerPairs embeddings threshold i (j # js) (redundantPairs, totalPairs, similarPairs) =
     (case cosineSimilarity (embeddings ! i) (embeddings ! j) of
        Inl err \<Rightarrow> Inl err
      | Inr similarity \<Rightarrow>
          innerPairs embeddings threshold i js
            (if exceeds similarity threshold
             then (redundantPairs + 1, totalPairs + 1, similarPairs @ [(i, j, similarity)])
             else (redundantPairs, totalPairs + 1, similarPairs)))"

fun outerPairs :: "real list list \<Rightarrow> real \<Rightarrow> nat \<Rightarrow> nat list \<Rightarrow> PairCounters \<Rightarrow> Failure + PairCounters" where
  "outerPairs embeddings threshold n [] acc = Inr acc"
| "outerPairs embeddings threshold n (i # rest) acc =
     (case innerPairs embeddings threshold i [i + 1..<n] acc of
        Inl err \<Rightarrow> Inl err
      | Inr acc1 \<Rightarrow> outerPairs embeddings threshold n rest acc1)"

definition DEFAULT_THRESHOLD :: real where
  "DEFAULT_THRESHOLD = 8 / 10"

definition computeRedundancy :: "TaskNode \<Rightarrow> 'w EmbeddingClient \<Rightarrow> real \<Rightarrow> (EvaluationResult, 'w) io" where
  "computeRedundancy tree embedClient threshold w =
     (let nodes = getAllNodesArray tree in
      if length nodes < 2 then (Inr \<lparr>score = 1, details = Some (PairDetails 0 0 None [])\<rparr>, w)
      else
        case embedNodes embedClient nodes [] w of
          (Inl err, w1) \<Rightarrow> (Inl err, w1)
        | (Inr embeddings, w1) \<Rightarrow>
            (case outerPairs embeddings threshold (length nodes) [0..<length nodes] (0, 0, []) of
               Inl err \<Rightarrow> (Inl err, w1)
             | Inr (redundantPairs, totalPairs, similarPairs) \<Rightarrow>
                 let redundancyRatio =
                       (if totalPairs > 0 then real redundantPairs / real totalPairs else 0);
                     score = 1 - redundancyRatio
                 in (Inr \<lparr>score = score,
                          details = Some (PairDetails redundantPairs totalPairs (Some threshold)
                                            (take 5 similarPairs))\<rparr>, w1)))"

section \<open>Granularity (metrics/semantic.ts)\<close>

text \<open>
  The fields \<open>min\<close> and \<open>max\<close> of the ideal range are called \<open>range_min\<close> and
  \<open>range_max\<close>. When the midpoint of the range is zero the source divides by zero; the
  model covers ranges whose midpoint is not zero, and every statement about the
  exponential branch is made for such ranges.
\<close>

record IdealRange =
  range_min :: real
  range_max :: real

definition DEFAULT_RANGE :: IdealRange where
  "DEFAULT_RANGE = \<lparr>range_min = 1, range_max = 8\<rparr>"

definition DEFAULT_ALPHA :: real where
  "DEFAULT_ALPHA = 1"

definition granularityScore :: "IdealRange \<Rightarrow> real \<Rightarrow> real \<Rightarrow> real" where
  "granularityScore idealRange alpha effort =
     (if effort \<ge> range_min idealRange \<and> effort \<le> range_max idealRange then 1
      else
        let mid = (range_min idealRange + range_max idealRange) / 2
        in exp (- alpha * \<bar>effort - mid\<bar> / mid))"

type_synonym EffortEntry = "string \<times> real \<times> real"

fun granularityLoop ::
  "'w LLMClient \<Rightarrow> Platform \<Rightarrow> IdealRange \<Rightarrow> real \<Rightarrow> TaskNode list \<Rightarrow>
   real list \<Rightarrow> EffortEntry list \<Rightarrow> (real list \<times> EffortEntry list, 'w) io" where
  "granularityLoop chat js idealRange alpha [] scores efforts w = (Inr (scores, efforts), w)"
| "granularityLoop chat js idealRange alpha (leaf # rest) scores efforts w =
     (case chat (userMessage (getEstimateEffortPrompt js leaf)) w of
        (Inl err, w1) \<Rightarrow> (Inl err, w1)
      | (Inr response, w1) \<Rightarrow>
          (case parseFloat js (trim response) of
             None \<Rightarrow>
               granularityLoop chat js idealRange alpha rest
                 (scores @ [1 / 2]) (efforts @ [(title leaf, - 1, 1 / 2)]) w1
           | Some effort \<Rightarrow>
               let score = granularityScore idealRange alpha effort
               in granularityLoop chat js idealRange alpha rest
                    (scores @ [score]) (efforts @ [(title leaf, effort, score)]) w1))"

text \<open>The body of \<open>computeGranularity\<close> after \<open>const leaves = getLeafNodes(root)\<close>.\<close>

definition granularityOfLeaves ::
  "TaskNode list \<Rightarrow> 'w LLMClient \<Rightarrow> Platform \<Rightarrow> IdealRange \<Rightarrow> real \<Rightarrow> (EvaluationResult, 'w) io" where
  "granularityOfLeaves leaves chat js idealRange alpha w =
     (if length leaves = 0 then (Inr \<lparr>score = 1, details = Some (LeafCountDetails 0)\<rparr>, w)
      else
        case granularityLoop chat js idealRange alpha leaves [] [] w of
          (Inl err, w1) \<Rightarrow> (Inl err, w1)
        | (Inr (scores, efforts), w1) \<Rightarrow>
            let avgScore = foldl (\<lambda>a b. a + b) 0 scores / real (length scores)
            in (Inr \<lparr>score = avgScore,
                     details = Some (EffortDetails (length leaves)
                                       (range_min idealRange, range_max idealRange) efforts)\<rparr>, w1))"

definition computeGranularity ::
  "TaskNode \<Rightarrow> 'w LLMClient \<Rightarrow> Platform \<Rightarrow> IdealRange \<Rightarrow> real \<Rightarrow> (EvaluationResult, 'w) io" where
  "computeGranularity tree chat js idealRange alpha w =
     granularityOfLeaves (getLeafNodes tree) chat js idealRange alpha w"

section \<open>Executability (metrics/semantic.ts)\<close>

type_synonym RatingEntry = "string \<times> int \<times> real"

definition ratingEntry :: "Platform \<Rightarrow> TaskNode \<Rightarrow> string \<Rightarrow> RatingEntry" where
  "ratingEntry js leaf response =
     (case parseInt js (trim response) of
        None \<Rightarrow> (title leaf, 3, 1 / 2)
      | Some rating \<Rightarrow>
          if rating < 1 \<or> rating > 5 then (title leaf, 3, 1 / 2)
          else (title leaf, rating, (real_of_int rating - 1) / 4))"

fun executabilityLoop ::
  "'w LLMClient \<Rightarrow> Platform \<Rightarrow> TaskNode list \<Rightarrow> RatingEntry list \<Rightarrow> (RatingEntry list, 'w) io" where
  "executabilityLoop chat js [] ratings w = (Inr ratings, w)"
| "executabilityLoop chat js (leaf # rest) ratings w =
     (case chat (userMessage (getJudgeExecutabilityPrompt js leaf)) w of
        (Inl err, w1) \<Rightarrow> (Inl err, w1)
      | (Inr response, w1) \<Rightarrow>
          executabilityLoop chat js rest (ratings @ [ratingEntry js leaf response]) w1)"

text \<open>The body of \<open>computeExecutability\<close> after \<open>const leaves = getLeafNodes(root)\<close>.\<close>

definition executabilityOfLeaves ::
  "TaskNode list \<Rightarrow> 'w LLMClient \<Rightarrow> Platform \<Rightarrow> (EvaluationResult, 'w) io" where
  "executabilityOfLeaves leaves chat js w =
     (if length leaves = 0 then (Inr \<lparr>score = 1, details = Some (LeafCountDetails 0)\<rparr>, w)
      else
        case executabilityLoop chat js leaves [] w of
          (Inl err, w1) \<Rightarrow> (Inl err, w1)
        | (Inr ratings, w1) \<Rightarrow>
            let avgScore = foldl (\<lambda>sum r. sum + snd (snd r)) 0 ratings / real (length ratings)
            in (Inr \<lparr>score = avgScore,
                     details = Some (RatingDetails (length leaves) ratings)\<rparr>, w1))"

definition computeExecutability ::
  "TaskNode \<Rightarrow> 'w LLMClient \<Rightarrow> Platform \<Rightarrow> (EvaluationResult, 'w) io" where
  "computeExecutability tree chat js w = executabilityOfLeaves (getLeafNodes tree) chat js w"

section \<open>Aggregation (metrics/tdq.ts)\<close>

text \<open>
  The weights are called \<open>acyclicityW\<close>, ... to tell them from the fields of the
  breakdown, and the field \<open>score\<close> of a \<open>TDQResult\<close> is called \<open>tdqScore\<close>.
\<close>

record TDQWeights =
  acyclicityW :: real
  hierarchyW :: real
  balanceW :: real
  granularityW :: real
  redundancyW :: real
  executabilityW :: real

record TDQBreakdown =
  acyclicity :: EvaluationResult
  hierarchy :: EvaluationResult
  balance :: EvaluationResult
  granularity :: EvaluationResult
  redundancy :: EvaluationResult
  executability :: EvaluationResult

record TDQResult =
  tdqScore :: real
  breakdown :: TDQBreakdown
  weights :: TDQWeights
  issues :: "Issue list"

definition DEFAULT_WEIGHTS :: TDQWeights where
  "DEFAULT_WEIGHTS =
     \<lparr>acyclicityW = 10 / 100, hierarchyW = 15 / 100, balanceW = 10 / 100,
      granularityW = 20 / 100, redundancyW = 10 / 100, executabilityW = 25 / 100\<rparr>"

definition weightedScore :: "TDQWeights \<Rightarrow> TDQBreakdown \<Rightarrow> real" where
  "weightedScore ws b =
     acyclicityW ws * score (acyclicity b) +
     hierarchyW ws * score (hierarchy b) +
     balanceW ws * score (balance b) +
     granularityW ws * score (granularity b) +
     redundancyW ws * score (redundancy b) +
     executabilityW ws * score (executability b)"

definition findIssues :: "TDQBreakdown \<Rightarrow> Issue list" where
  "findIssues b =
     (if score (acyclicity b) = 0 then [CyclicDependency] else []) @
     (if score (hierarchy b) < 7 / 10 then [LowHierarchy (score (hierarchy b))] else []) @
     (if score (balance b) < 5 / 10 then [LowBalance (score (balance b))] else []) @
     (if score (granularity b) < 6 / 10 then [LowGranularity (score (granularity b))] else []) @
     (if score (redundancy b) < 8 / 10 then [LowRedundancy (score (redundancy b))] else []) @
     (if score (executability b) < 6 / 10 then [LowExecutability (score (executability b))]
      else [])"

text \<open>The part of \<open>computeTDQ\<close> after the six metrics are computed.\<close>

definition tdqResult :: "TDQWeights \<Rightarrow> TDQBreakdown \<Rightarrow> TDQResult" where
  "tdqResult ws b =
     \<lparr>tdqScore = weightedScore ws b, breakdown = b, weights = ws, issues = findIssues b\<rparr>"

definition computeTDQ ::
  "TaskNode \<Rightarrow> 'w LLMClient \<Rightarrow> 'w EmbeddingClient \<Rightarrow> TDQWeights \<Rightarrow> Platform \<Rightarrow> (TDQResult, 'w) io" where
  "computeTDQ tree chat embedClient ws js w =
     (let acyclicityResult = computeAcyclicity tree;
          hierarchyResult = computeHierarchyConsistency tree;
          balanceResult = computeHierarchyBalance tree
      in case computeRedundancy tree embedClient DEFAULT_THRESHOLD w of
           (Inl err, w1) \<Rightarrow> (Inl err, w1)
         | (Inr redundancyResult, w1) \<Rightarrow>
             (case computeGranularity tree chat js DEFAULT_RANGE DEFAULT_ALPHA w1 of
                (Inl err, w2) \<Rightarrow> (Inl err, w2)
              | (Inr granularityResult, w2) \<Rightarrow>
                  (case computeExecutability tree chat js w2 of
                     (Inl err, w3) \<Rightarrow> (Inl err, w3)
                   | (Inr executabilityResult, w3) \<Rightarrow>
                       (Inr (tdqResult ws
                               \<lparr>acyclicity = acyclicityResult, hierarchy = hierarchyResult,
                                balance = balanceResult, granularity = granularityResult,
                                redundancy = redundancyResult,
                                executability = executabilityResult\<rparr>),
                        w3))))"

section \<open>Optimization loop (service/taskService.ts)\<close>

text \<open>
  The fields of the configuration are JavaScript values. A number is a finite number, taken
  as a real, or \<open>NaN\<close>, \<open>Infinity\<close> or \<open>-Infinity\<close>; a value that may be \<open>undefined\<close> is
  an option, \<open>None\<close> being \<open>undefined\<close>. \<open>toNumber\<close> is the conversion that an arithmetic
  operator or a comparison applies to its operand, \<open>jsLess\<close>, \<open>jsGreaterEq\<close> and \<open>jsMinus\<close>
  are the operators \<open><\<close>, \<open>>=\<close> and \<open>-\<close> on numbers.
\<close>

datatype Number = NaN | Finite real | PosInfinity | NegInfinity

fun toNumber :: "Number option \<Rightarrow> Number" where
  "toNumber None = NaN"
| "toNumber (Some n) = n"

fun jsLess :: "Number \<Rightarrow> Number \<Rightarrow> bool" where
  "jsLess (Finite a) (Finite b) = (a < b)"
| "jsLess (Finite a) PosInfinity = True"
| "jsLess NegInfinity (Finite b) = True"
| "jsLess NegInfinity PosInfinity = True"
| "jsLess a b = False"

fun jsGreaterEq :: "Number \<Rightarrow> Number \<Rightarrow> bool" where
  "jsGreaterEq NaN b = False"
| "jsGreaterEq a NaN = False"
| "jsGreaterEq a b = (\<not> jsLess a b)"

fun jsMinus :: "Number \<Rightarrow> Number \<Rightarrow> Number" where
  "jsMinus (Finite a) (Finite b) = Finite (a - b)"
| "jsMinus NaN b = NaN"
| "jsMinus a NaN = NaN"
| "jsMinus PosInfinity PosInfinity = NaN"
| "jsMinus NegInfinity NegInfinity = NaN"
| "jsMinus PosInfinity b = PosInfinity"
| "jsMinus NegInfinity b = NegInfinity"
| "jsMinus a PosInfinity = NegInfinity"
| "jsMinus a NegInfinity = PosInfinity"

text \<open>
  The \<open>config\<close> argument is a partial configuration: each key is absent, or present with a
  value, which may be \<open>undefined\<close>. Spreading it over the defaults copies every key that is
  present, also one whose value is \<open>undefined\<close>. The iteration counter and the iteration
  numbers of the history are integers. Writing to the console is not modelled. The field
  \<open>issues\<close> of a history entry is called \<open>entry_issues\<close>.
\<close>

datatype 'a Key = Absent | Present 'a

record OptimizationConfig =
  maxIterations :: "Number option"
  targetTDQ :: "Number option"
  verbose :: "bool option"

record PartialConfig =
  maxIterationsGiven :: "Number option Key"
  targetTDQGiven :: "Number option Key"
  verboseGiven :: "bool option Key"

record HistoryEntry =
  iteration :: int
  tdq :: real
  entry_issues :: "Issue list"

record OptimizationResult =
  finalTree :: TaskNode
  finalTDQ :: TDQResult
  iterations :: "Number option"
  history :: "HistoryEntry list"

definition DEFAULT_CONFIG :: OptimizationConfig where
  "DEFAULT_CONFIG =
     \<lparr>maxIterations = Some (Finite 5), targetTDQ = Some (Finite (75 / 100)),
      verbose = Some True\<rparr>"

definition mergeConfig :: "PartialConfig \<Rightarrow> OptimizationConfig" where
  "mergeConfig config =
     \<lparr>maxIterations =
        (case maxIterationsGiven config of
           Absent \<Rightarrow> maxIterations DEFAULT_CONFIG | Present v \<Rightarrow> v),
      targetTDQ =
        (case targetTDQGiven config of Absent \<Rightarrow> targetTDQ DEFAULT_CONFIG | Present v \<Rightarrow> v),
      verbose =
        (case verboseGiven config of Absent \<Rightarrow> verbose DEFAULT_CONFIG | Present v \<Rightarrow> v)\<rparr>"

definition generateTaskTree :: "string \<Rightarrow> 'w LLMClient \<Rightarrow> Platform \<Rightarrow> (TaskNode, 'w) io" where
  "generateTaskTree userInput chat js w =
     (case chat (userMessage (getGenerateTaskTreePrompt js userInput)) w of
        (Inl err, w1) \<Rightarrow> (Inl err, w1)
      | (Inr response, w1) \<Rightarrow> (cleanAndParseJSON js response, w1))"

definition refineTaskTree ::
  "TaskNode \<Rightarrow> TDQResult \<Rightarrow> 'w LLMClient \<Rightarrow> Platform \<Rightarrow> (TaskNode, 'w) io" where
  "refineTaskTree currentTree evaluation chat js w =
     (let scores = (score (granularity (breakdown evaluation)),
                    score (executability (breakdown evaluation)),
                    score (redundancy (breakdown evaluation)));
          prompt = getRefineTaskTreePrompt js currentTree (issues evaluation) scores
      in case chat (userMessage prompt) w of
           (Inl err, w1) \<Rightarrow> (Inl err, w1)
         | (Inr response, w1) \<Rightarrow> (cleanAndParseJSON js response, w1))"

text \<open>
  One pass through the body of the \<open>while\<close> loop: it either returns from the function
  with a result or goes on to the next test of the loop with a new tree, history and
  iteration counter. The variables \<open>tdqResult\<close>, \<open>history\<close> and \<open>iteration\<close> of the
  source are called \<open>evaluation\<close>, \<open>historyNow\<close> and \<open>iterationNow\<close>.
\<close>

datatype Step =
    Return OptimizationResult
  | Next TaskNode "HistoryEntry list" int

definition loopBody ::
  "'w LLMClient \<Rightarrow> 'w EmbeddingClient \<Rightarrow> Platform \<Rightarrow> OptimizationConfig \<Rightarrow>
   TaskNode \<Rightarrow> HistoryEntry list \<Rightarrow> int \<Rightarrow> (Step, 'w) io" where
  "loopBody chat embedClient js finalConfig currentTree historyNow iterationNow w =
     (case computeTDQ currentTree chat embedClient DEFAULT_WEIGHTS js w of
        (Inl err, w1) \<Rightarrow> (Inl err, w1)
      | (Inr evaluation, w1) \<Rightarrow>
          let historyNext = historyNow @ [\<lparr>iteration = iterationNow + 1, tdq = tdqScore evaluation,
                                     entry_issues = issues evaluation\<rparr>]
          in if jsGreaterEq (Finite (tdqScore evaluation)) (toNumber (targetTDQ finalConfig))
             then (Inr (Return \<lparr>finalTree = currentTree, finalTDQ = evaluation,
                                 iterations = Some (Finite (of_int (iterationNow + 1))),
                                 history = historyNext\<rparr>), w1)
             else if jsLess (Finite (of_int iterationNow))
                       (jsMinus (toNumber (maxIterations finalConfig)) (Finite 1))
             then (case refineTaskTree currentTree evaluation chat js w1 of
                     (Inl err, w2) \<Rightarrow> (Inl err, w2)
                   | (Inr refined, w2) \<Rightarrow> (Inr (Next refined historyNext (iterationNow + 1)), w2))
             else (Inr (Next currentTree historyNext (iterationNow + 1)), w1))"

text \<open>
  The \<open>while\<close> loop: it ends with the result returned from inside the body, or with the
  tree and the history at the moment its test fails. With \<open>maxIterations\<close> infinite the
  test never fails, and the loop need not end: a run that does not end has the value
  \<open>None\<close>.
\<close>

datatype LoopExit =
    Returned OptimizationResult
  | Exhausted TaskNode "HistoryEntry list"

partial_function (option) optimizeLoop ::
  "'w LLMClient \<Rightarrow> 'w EmbeddingClient \<Rightarrow> Platform \<Rightarrow> OptimizationConfig \<Rightarrow>
   TaskNode \<Rightarrow> HistoryEntry list \<Rightarrow> int \<Rightarrow> 'w \<Rightarrow> ((Failure + LoopExit) \<times> 'w) option" where
  "optimizeLoop chat embedClient js finalConfig currentTree historyNow iterationNow w =
     (if jsLess (Finite (of_int iterationNow)) (toNumber (maxIterations finalConfig)) then
        (case loopBody chat embedClient js finalConfig currentTree historyNow iterationNow w of
           (Inl err, w1) \<Rightarrow> Some (Inl err, w1)
         | (Inr (Return result), w1) \<Rightarrow> Some (Inr (Returned result), w1)
         | (Inr (Next tree' historyNow' iterationNow'), w1) \<Rightarrow>
             optimizeLoop chat embedClient js finalConfig tree' historyNow' iterationNow' w1)
      else Some (Inr (Exhausted currentTree historyNow), w))"

definition optimizeTaskDecomposition ::
  "string \<Rightarrow> 'w LLMClient \<Rightarrow> 'w EmbeddingClient \<Rightarrow> PartialConfig \<Rightarrow> Platform \<Rightarrow> 'w \<Rightarrow>
   ((Failure + OptimizationResult) \<times> 'w) option" where
  "optimizeTaskDecomposition userInput chat embedClient config js w =
     (let finalConfig = mergeConfig config in
      case generateTaskTree userInput chat js w of
        (Inl err, w1) \<Rightarrow> Some (Inl err, w1)
      | (Inr tree, w1) \<Rightarrow>
          (case optimizeLoop chat embedClient js finalConfig tree [] 0 w1 of
             None \<Rightarrow> None
           | Some (Inl err, w2) \<Rightarrow> Some (Inl err, w2)
           | Some (Inr (Returned result), w2) \<Rightarrow> Some (Inr result, w2)
           | Some (Inr (Exhausted currentTree historyNow), w2) \<Rightarrow>
               (case computeTDQ currentTree chat embedClient DEFAULT_WEIGHTS js w2 of
                  (Inl err, w3) \<Rightarrow> Some (Inl err, w3)
                | (Inr finalEvaluation, w3) \<Rightarrow>
                    Some (Inr \<lparr>finalTree = currentTree, finalTDQ = finalEvaluation,
                               iterations = maxIterations finalConfig,
                               history = historyNow\<rparr>, w3))))"

section \<open>Notions used to state the properties\<close>

text \<open>
  The functional pre-order list of a tree, with and without depths. The traversals of
  the source are folds over these lists.
\<close>

fun preorder :: "TaskNode \<Rightarrow> TaskNode list" where
  "preorder (TaskNode i t d p e cs ds) = TaskNode i t d p e cs ds # concat (map preorder cs)"

fun preorderDepth :: "TaskNode \<Rightarrow> nat \<Rightarrow> (TaskNode \<times> nat) list" where
  "preorderDepth (TaskNode i t d p e cs ds) k =
     (TaskNode i t d p e cs ds, k) # concat (map (\<lambda>c. preorderDepth c (k + 1)) cs)"

definition ids :: "TaskNode \<Rightarrow> string list" where
  "ids tree = map node_id (preorder tree)"

text \<open>No node lists a dependency id that resolves in the tree.\<close>

definition noDependencyEdges :: "TaskNode \<Rightarrow> bool" where
  "noDependencyEdges tree =
     list_all (\<lambda>node. case dependencies node of
                        None \<Rightarrow> True
                      | Some deps \<Rightarrow> list_all (\<lambda>depId. depId \<notin> set (ids tree)) deps)
       (preorder tree)"

text \<open>Population variance, and the balance score as the specification words it.\<close>

definition mean :: "real list \<Rightarrow> real" where
  "mean xs = sum_list xs / real (length xs)"

definition populationVariance :: "real list \<Rightarrow> real" where
  "populationVariance xs = sum_list (map (\<lambda>x. (x - mean xs) ^ 2) xs) / real (length xs)"

definition nonLeafCounts :: "TaskNode list \<Rightarrow> nat list" where
  "nonLeafCounts ns = map (\<lambda>n. length (children n)) (filter (\<lambda>n. children n \<noteq> []) ns)"

definition balanceFormula :: "nat list \<Rightarrow> real" where
  "balanceFormula counts =
     (if length counts < 2 then 1
      else 1 - min 1 (populationVariance (map real counts) / 5))"

text \<open>The edge relation of an adjacency map, cycles, and the invariant of the search.\<close>

definition edges :: "Adj \<Rightarrow> (string \<times> string) set" where
  "edges adj = {(u, v). v \<in> set (neighbors adj u)}"

definition cyclic :: "(string \<times> string) set \<Rightarrow> bool" where
  "cyclic E = (\<exists>x. (x, x) \<in> E\<^sup>+)"

definition black :: "DfsState \<Rightarrow> string set" where
  "black s = visited s - recursionStack s"

definition dfsInv :: "Adj \<Rightarrow> DfsState \<Rightarrow> bool" where
  "dfsInv adj s \<longleftrightarrow>
     recursionStack s \<subseteq> visited s \<and>
     (\<forall>x\<in>black s. \<forall>y. (x, y) \<in> edges adj \<longrightarrow> y \<in> black s) \<and>
     (\<forall>x\<in>black s. (x, x) \<notin> (edges adj)\<^sup>+)"

text \<open>
  The merged graph of a list of nodes: decomposition edges from a node to each child, and
  dependency edges from a node to each dependency id carried by a node of the list.
\<close>

definition outIds :: "string list \<Rightarrow> TaskNode \<Rightarrow> string list" where
  "outIds allIds n =
     map node_id (children n) @
     (case dependencies n of None \<Rightarrow> [] | Some deps \<Rightarrow> filter (\<lambda>d. d \<in> set allIds) deps)"

definition mergedEdges :: "TaskNode list \<Rightarrow> (string \<times> string) set" where
  "mergedEdges ns = {(node_id n, v) | n v. n \<in> set ns \<and> v \<in> set (outIds (map node_id ns) n)}"

text \<open>The part of a list after the last occurrence of an element.\<close>

fun after :: "'a \<Rightarrow> 'a list \<Rightarrow> 'a list" where
  "after k [] = []"
| "after k (x # xs) = (if k \<in> set xs then after k xs else xs)"

text \<open>
  The pairs of indices in the order of the nested loops, the cosine of two vectors, the
  redundant pairs of a list of embeddings, and whether all compared vectors have equal
  lengths.
\<close>

definition allPairs :: "nat \<Rightarrow> (nat \<times> nat) list" where
  "allPairs n = concat (map (\<lambda>i. map (\<lambda>j. (i, j)) [i + 1..<n]) [0..<n])"

definition cosine :: "real list \<Rightarrow> real list \<Rightarrow> real option" where
  "cosine a b =
     quotient (\<Sum>i<length a. a ! i * b ! i)
       (sqrt (\<Sum>i<length a. a ! i * a ! i) * sqrt (\<Sum>i<length b. b ! i * b ! i))"

definition redundantPairsOf :: "real list list \<Rightarrow> real \<Rightarrow> SimilarPair list" where
  "redundantPairsOf vecs threshold =
     map (\<lambda>(i, j). (i, j, cosine (vecs ! i) (vecs ! j)))
       (filter (\<lambda>(i, j). exceeds (cosine (vecs ! i) (vecs ! j)) threshold)
          (allPairs (length vecs)))"

definition sameLengths :: "real list list \<Rightarrow> bool" where
  "sameLengths vecs =
     list_all (\<lambda>(i, j). length (vecs ! i) = length (vecs ! j)) (allPairs (length vecs))"

definition pairsFrom :: "nat \<Rightarrow> nat list \<Rightarrow> (nat \<times> nat) list" where
  "pairsFrom n rows = concat (map (\<lambda>i. map (\<lambda>j. (i, j)) [i + 1..<n]) rows)"

text \<open>
  The responses of the chat collaborator to a list of prompts asked one after the other,
  and the score and the detail entry that a response gives a leaf.
\<close>

fun askAll :: "'w LLMClient \<Rightarrow> string list \<Rightarrow> (string list, 'w) io" where
  "askAll chat [] w = (Inr [], w)"
| "askAll chat (prompt # prompts) w =
     (case chat (userMessage prompt) w of
        (Inl err, w1) \<Rightarrow> (Inl err, w1)
      | (Inr response, w1) \<Rightarrow>
          (case askAll chat prompts w1 of
             (Inl err, w2) \<Rightarrow> (Inl err, w2)
           | (Inr responses, w2) \<Rightarrow> (Inr (response # responses), w2)))"

definition leafScore :: "Platform \<Rightarrow> IdealRange \<Rightarrow> real \<Rightarrow> string \<Rightarrow> real" where
  "leafScore js idealRange alpha response =
     (case parseFloat js (trim response) of
        None \<Rightarrow> 1 / 2
      | Some effort \<Rightarrow> granularityScore idealRange alpha effort)"

definition effortEntry :: "Platform \<Rightarrow> IdealRange \<Rightarrow> real \<Rightarrow> TaskNode \<Rightarrow> string \<Rightarrow> EffortEntry" where
  "effortEntry js idealRange alpha leaf response =
     (title leaf,
      (case parseFloat js (trim response) of None \<Rightarrow> - 1 | Some effort \<Rightarrow> effort),
      leafScore js idealRange alpha response)"

definition isLeaf :: "TaskNode \<Rightarrow> bool" where
  "isLeaf node = (children node = [])"

text \<open>
  The two tests of the loop: the score has reached the target, and the iteration counter
  is below \<open>maxIterations\<close>.
\<close>

definition targetReached :: "OptimizationConfig \<Rightarrow> real \<Rightarrow> bool" where
  "targetReached finalConfig s = jsGreaterEq (Finite s) (toNumber (targetTDQ finalConfig))"

definition budgetLeft :: "OptimizationConfig \<Rightarrow> int \<Rightarrow> bool" where
  "budgetLeft finalConfig k = jsLess (Finite (of_int k)) (toNumber (maxIterations finalConfig))"

text \<open>What a pass through the loop body and an exit of the loop leave behind.\<close>

definition entryOf :: "int \<Rightarrow> TDQResult \<Rightarrow> HistoryEntry" where
  "entryOf k r = \<lparr>iteration = k, tdq = tdqScore r, entry_issues = issues r\<rparr>"

fun stepHistory :: "Step \<Rightarrow> HistoryEntry list" where
  "stepHistory (Return result) = history result"
| "stepHistory (Next tree' history' iteration') = history'"

fun isReturn :: "Step \<Rightarrow> bool" where
  "isReturn (Return result) = True"
| "isReturn (Next tree' history' iteration') = False"

fun exitHistory :: "LoopExit \<Rightarrow> HistoryEntry list" where
  "exitHistory (Returned result) = history result"
| "exitHistory (Exhausted tree' history') = history'"

text \<open>
  A history, read from the tree, the iteration counter and the state of the world at a
  test of the loop: the first entry is the evaluation of that tree in that state under
  the next iteration number, and every further entry comes in the same way from the
  refinement of the tree by that evaluation.
\<close>

fun recordedFrom ::
  "'w LLMClient \<Rightarrow> 'w EmbeddingClient \<Rightarrow> Platform \<Rightarrow> TaskNode \<Rightarrow> int \<Rightarrow> 'w \<Rightarrow>
   HistoryEntry list \<Rightarrow> bool" where
  "recordedFrom chat embedClient js tree k w [] = True"
| "recordedFrom chat embedClient js tree k w (e # es) =
     (case computeTDQ tree chat embedClient DEFAULT_WEIGHTS js w of
        (Inl err, w0) \<Rightarrow> False
      | (Inr r, w0) \<Rightarrow>
          e = entryOf (k + 1) r \<and>
          (es = [] \<or>
           (case refineTaskTree tree r chat js w0 of
              (Inl err, w1) \<Rightarrow> False
            | (Inr refined, w1) \<Rightarrow> recordedFrom chat embedClient js refined (k + 1) w1 es)))"

text \<open>Collaborators whose answers do not depend on the state of the world.\<close>

definition deterministicChat :: "'w LLMClient \<Rightarrow> bool" where
  "deterministicChat chat = (\<forall>messages w w'. fst (chat messages w) = fst (chat messages w'))"

definition deterministicEmbedding :: "'w EmbeddingClient \<Rightarrow> bool" where
  "deterministicEmbedding embedClient =
     (\<forall>text w w'. fst (embedClient text w) = fst (embedClient text w'))"

section \<open>Example trees\<close>

definition mk :: "string \<Rightarrow> TaskNode list \<Rightarrow> string list option \<Rightarrow> TaskNode" where
  "mk i cs ds = TaskNode i i None None None cs ds"

text \<open>The trees of the test suite of the structural metrics.\<close>

definition pureTree :: TaskNode where
  "pureTree = mk ''root'' [mk ''c1'' [] None] None"

definition unbalancedTree :: TaskNode where
  "unbalancedTree =
     mk ''root''
       [mk ''c1'' (map (\<lambda>k. mk k [] None)
          [''c1_0'', ''c1_1'', ''c1_2'', ''c1_3'', ''c1_4'', ''c1_5'', ''c1_6'', ''c1_7'',
           ''c1_8'', ''c1_9'']) None,
        mk ''c2'' [mk ''c2_1'' [] None] None] None"

text \<open>Trees in which two nodes share an id.\<close>

definition sharedIdTree :: TaskNode where
  "sharedIdTree = mk ''r'' [mk ''p'' [mk ''c'' [] None] None, mk ''c'' [] None] None"

definition shadowedParentTree :: TaskNode where
  "shadowedParentTree = mk ''r'' [mk ''a'' [mk ''x'' [] None] None, mk ''a'' [] None] None"

definition selfDependentRoot :: TaskNode where
  "selfDependentRoot = mk ''root'' [] (Some [''root''])"

definition shadowedSelfDependency :: TaskNode where
  "shadowedSelfDependency = mk ''r'' [mk ''a'' [] (Some [''a'']), mk ''a'' [] None] None"

section \<open>Example collaborators\<close>

text \<open>The state of the world counts the calls made so far.\<close>

definition constantEmbedding :: "nat EmbeddingClient" where
  "constantEmbedding text w = (Inr [1, 0], Suc w)"

definition growingEmbedding :: "nat EmbeddingClient" where
  "growingEmbedding text w = (Inr (replicate (Suc w) 1), Suc w)"

definition answering :: "string \<Rightarrow> nat LLMClient" where
  "answering response messages w = (Inr response, Suc w)"

definition examplePlatform :: Platform where
  "examplePlatform =
     \<lparr>parseFloat = (\<lambda>s. if s = ''4'' then Some 4 else if s = ''20'' then Some 20 else None),
      parseInt = (\<lambda>s. if s = ''4'' then Some 4 else if s = ''9'' then Some 9 else None),
      getEstimateEffortPrompt = title,
      getJudgeExecutabilityPrompt = title,
      getGenerateTaskTreePrompt = (\<lambda>userInput. userInput),
      getRefineTaskTreePrompt = (\<lambda>tree found scores. title tree),
      cleanAndParseJSON = (\<lambda>response. Inr (mk ''root'' [] None))\<rparr>"

section \<open>Example runs\<close>

definition singleTask :: TaskNode where
  "singleTask = mk ''root'' [] None"

definition lowEvaluation :: TDQResult where
  "lowEvaluation =
     tdqResult DEFAULT_WEIGHTS
       \<lparr>acyclicity = \<lparr>score = 1, details = Some (CycleDetails False)\<rparr>,
        hierarchy = \<lparr>score = 1, details = None\<rparr>,
        balance = \<lparr>score = 1, details = Some (VarianceDetails 0 None)\<rparr>,
        granularity = \<lparr>score = 1 / 2, details = Some (EffortDetails 1 (1, 8) [(''root'', - 1, 1 / 2)])\<rparr>,
        redundancy = \<lparr>score = 1, details = Some (PairDetails 0 0 None [])\<rparr>,
        executability = \<lparr>score = 1 / 2, details = Some (RatingDetails 1 [(''root'', 3, 1 / 2)])\<rparr>\<rparr>"

text \<open>
  Configurations of the example runs: a budget of two iterations, a negative budget, a
  \<open>maxIterations\<close> key that is present with the value \<open>undefined\<close>, a budget that is not
  an integer, and a target below the score of the example evaluation.
\<close>

definition twoRounds :: PartialConfig where
  "twoRounds =
     \<lparr>maxIterationsGiven = Present (Some (Finite 2)), targetTDQGiven = Absent,
      verboseGiven = Absent\<rparr>"

definition negativeBudget :: PartialConfig where
  "negativeBudget =
     \<lparr>maxIterationsGiven = Present (Some (Finite (- 1))), targetTDQGiven = Absent,
      verboseGiven = Absent\<rparr>"

definition undefinedBudget :: PartialConfig where
  "undefinedBudget =
     \<lparr>maxIterationsGiven = Present None, targetTDQGiven = Absent, verboseGiven = Absent\<rparr>"

definition fractionalBudget :: PartialConfig where
  "fractionalBudget =
     \<lparr>maxIterationsGiven = Present (Some (Finite (3 / 2))), targetTDQGiven = Absent,
      verboseGiven = Absent\<rparr>"

definition lowTarget :: PartialConfig where
  "lowTarget =
     \<lparr>maxIterationsGiven = Absent, targetTDQGiven = Present (Some (Finite (1 / 2))),
      verboseGiven = Absent\<rparr>"

section \<open>The traversals as folds\<close>

lemma traverseNodes_fold:
  "traverseNodes t m = fold (\<lambda>n. AList.update (node_id n) n) (preorder t) m"
  "traverseNodesEach cs m = fold (\<lambda>n. AList.update (node_id n) n) (concat (map preorder cs)) m"
  by (induction t m and cs m rule: traverseNodes_traverseNodesEach.induct) simp_all

lemma traverseDepths_fold:
  "traverseDepths t k m = fold (\<lambda>(n, d). AList.update (node_id n) d) (preorderDepth t k) m"
  "traverseDepthsEach cs k m =
     fold (\<lambda>(n, d). AList.update (node_id n) d) (concat (map (\<lambda>c. preorderDepth c k) cs)) m"
  by (induction t k m and cs k m rule: traverseDepths_traverseDepthsEach.induct) simp_all

lemma update_fresh: "k \<notin> fst ` set m \<Longrightarrow> AList.update k v m = m @ [(k, v)]"
  by (induction m) auto

lemma fold_update_fresh:
  "distinct (map f xs) \<Longrightarrow> set (map f xs) \<inter> fst ` set m = {} \<Longrightarrow>
   fold (\<lambda>x. AList.update (f x) (g x)) xs m = m @ map (\<lambda>x. (f x, g x)) xs"
proof (induction xs arbitrary: m)
  case Nil
  then show ?case by simp
next
  case (Cons x xs)
  have fresh: "f x \<notin> fst ` set m" using Cons.prems(2) by auto
  have "set (map f xs) \<inter> fst ` set (m @ [(f x, g x)]) = {}"
    using Cons.prems by auto
  with Cons.IH [of "m @ [(f x, g x)]"] Cons.prems(1) fresh show ?case
    by (simp add: update_fresh)
qed

lemma map_fst_preorderDepth: "map fst (preorderDepth t k) = preorder t"
proof (induction t arbitrary: k)
  case (TaskNode i t d p e cs ds)
  have "map (map fst \<circ> (\<lambda>c. preorderDepth c (Suc k))) cs = map preorder cs"
    using TaskNode by (intro map_cong) auto
  then show ?case by (simp add: map_concat del: map_eq_conv)
qed

lemma getAllNodes_distinct:
  assumes "distinct (ids tree)"
  shows "getAllNodes tree = map (\<lambda>n. (node_id n, n)) (preorder tree)"
  using fold_update_fresh [of node_id "preorder tree" "[]" "\<lambda>n. n"] assms
  by (simp add: getAllNodes_def traverseNodes_fold ids_def)

lemma vals_getAllNodes_distinct:
  "distinct (ids tree) \<Longrightarrow> vals (getAllNodes tree) = preorder tree"
  by (simp add: getAllNodes_distinct vals_def comp_def)

lemma getNodeDepths_distinct:
  assumes "distinct (ids tree)"
  shows "getNodeDepths tree = map (\<lambda>(n, d). (node_id n, d)) (preorderDepth tree 0)"
proof -
  have "map (node_id \<circ> fst) (preorderDepth tree 0) = ids tree"
    unfolding ids_def map_fst_preorderDepth [of tree 0, symmetric] by simp
  with assms have "distinct (map (node_id \<circ> fst) (preorderDepth tree 0))" by simp
  from fold_update_fresh [OF this, of "[]" snd]
  show ?thesis
    by (simp add: getNodeDepths_def traverseDepths_fold case_prod_unfold)
qed

lemma child_in_preorderDepth:
  "(n, d) \<in> set (preorderDepth t k) \<Longrightarrow> c \<in> set (children n) \<Longrightarrow>
   (c, d + 1) \<in> set (preorderDepth t k)"
proof (induction t arbitrary: k)
  case (TaskNode i tt dd p e cs ds)
  show ?case
  proof (cases "(n, d) = (TaskNode i tt dd p e cs ds, k)")
    case True
    with TaskNode.prems(2) have "c \<in> set cs" by auto
    moreover have "(c, k + 1) \<in> set (preorderDepth c (k + 1))" by (cases c) simp
    ultimately show ?thesis using True by auto
  next
    case False
    with TaskNode.prems(1) obtain x where x: "x \<in> set cs" "(n, d) \<in> set (preorderDepth x (k + 1))"
      by auto
    from TaskNode.IH [OF x(1) x(2) TaskNode.prems(2)] x(1) show ?thesis by auto
  qed
qed

lemma depth_lookup_distinct:
  assumes "distinct (ids tree)" and "(n, d) \<in> set (preorderDepth tree 0)"
  shows "map_of (getNodeDepths tree) (node_id n) = Some d"
proof -
  have eq: "map fst (map (\<lambda>(n, d). (node_id n, d)) (preorderDepth tree 0)) = ids tree"
    unfolding ids_def map_fst_preorderDepth [of tree 0, symmetric]
    by (simp add: case_prod_unfold comp_def)
  have "(node_id n, d) \<in> set (map (\<lambda>(n, d). (node_id n, d)) (preorderDepth tree 0))"
    using assms(2) by force
  with assms(1) eq show ?thesis
    by (simp add: getNodeDepths_distinct [OF assms(1)] del: map_map)
qed

lemma keys_fold_update:
  "fst ` set (fold (\<lambda>n. AList.update (f n) (g n)) xs m) = fst ` set m \<union> f ` set xs"
  by (induction xs arbitrary: m) (auto simp: dom_update [unfolded dom_map_of_conv_image_fst])

lemma has_getAllNodes: "has (getAllNodes tree) k \<longleftrightarrow> k \<in> set (ids tree)"
  by (simp add: has_def getAllNodes_def traverseNodes_fold ids_def map_of_eq_None_iff
      keys_fold_update)

section \<open>Hierarchy consistency\<close>

lemma fold_childEdge_consistent:
  "\<forall>c\<in>set cs. map_of depths (node_id c) = Some (d + 1) \<Longrightarrow>
   fold (childEdge depths (Some d)) cs (a, b) = (a + length cs, b + length cs)"
  by (induction cs arbitrary: a b) (simp_all add: childEdge_def depthGreater_def)

lemma fold_dependencyEdge_unresolved:
  "\<forall>x\<in>set deps. \<not> has nodes x \<Longrightarrow>
   fold (dependencyEdge nodes depths u) deps acc = acc"
  by (induction deps arbitrary: acc) (simp_all add: dependencyEdge_def split: prod.splits)

lemma nodeEdges_consistent:
  assumes "map_of depths (node_id n) = Some d"
    and "\<forall>c\<in>set (children n). map_of depths (node_id c) = Some (d + 1)"
    and "\<forall>deps. dependencies n = Some deps \<longrightarrow> (\<forall>x\<in>set deps. \<not> has nodes x)"
  shows "nodeEdges nodes depths n (a, a) = (a + length (children n), a + length (children n))"
  using assms
  by (simp add: nodeEdges_def Let_def fold_childEdge_consistent fold_dependencyEdge_unresolved
      split: option.splits)

lemma fold_nodeEdges_consistent:
  assumes "\<forall>n\<in>set ns. \<exists>d. map_of depths (node_id n) = Some d \<and>
             (\<forall>c\<in>set (children n). map_of depths (node_id c) = Some (d + 1)) \<and>
             (\<forall>deps. dependencies n = Some deps \<longrightarrow> (\<forall>x\<in>set deps. \<not> has nodes x))"
  shows "\<exists>b. fold (nodeEdges nodes depths) ns (a, a) = (b, b)"
  using assms
proof (induction ns arbitrary: a)
  case Nil
  then show ?case by simp
next
  case (Cons n ns)
  then obtain d where d: "map_of depths (node_id n) = Some d"
    "\<forall>c\<in>set (children n). map_of depths (node_id c) = Some (d + 1)"
    "\<forall>deps. dependencies n = Some deps \<longrightarrow> (\<forall>x\<in>set deps. \<not> has nodes x)"
    by auto
  from nodeEdges_consistent [OF d] Cons.IH [of "a + length (children n)"] Cons.prems
  show ?case by simp
qed

lemma edgeCounts_consistent:
  assumes "distinct (ids tree)" and "noDependencyEdges tree"
  shows "\<exists>b. edgeCounts tree = (b, b)"
proof -
  have "\<exists>d. map_of (getNodeDepths tree) (node_id n) = Some d \<and>
          (\<forall>c\<in>set (children n). map_of (getNodeDepths tree) (node_id c) = Some (d + 1)) \<and>
          (\<forall>deps. dependencies n = Some deps \<longrightarrow> (\<forall>x\<in>set deps. \<not> has (getAllNodes tree) x))"
    if "n \<in> set (vals (getAllNodes tree))" for n
  proof -
    from that have n: "n \<in> set (preorder tree)"
      by (simp add: vals_getAllNodes_distinct [OF assms(1)])
    then obtain d where d: "(n, d) \<in> set (preorderDepth tree 0)"
      unfolding map_fst_preorderDepth [of tree 0, symmetric] by auto
    have "map_of (getNodeDepths tree) (node_id c) = Some (d + 1)" if "c \<in> set (children n)" for c
      using depth_lookup_distinct [OF assms(1) child_in_preorderDepth [OF d that]] .
    moreover have "\<not> has (getAllNodes tree) x"
      if "dependencies n = Some deps" "x \<in> set deps" for deps x
      using assms(2) n that by (auto simp: noDependencyEdges_def list_all_iff has_getAllNodes)
    ultimately show ?thesis using depth_lookup_distinct [OF assms(1) d] by blast
  qed
  then show ?thesis
    unfolding edgeCounts_def Let_def by (intro fold_nodeEdges_consistent) blast
qed

text \<open>
  Claim C1, as stated: in every tree without dependency edges, also one in which two
  nodes share an id, hierarchy consistency is 1. It fails: in \<open>sharedIdTree\<close> the id
  \<open>c\<close> is carried by a node at depth 2 and by a later node at depth 1, the depth map keeps
  the later depth, and the decomposition edge from \<open>p\<close> (depth 1) to \<open>c\<close> is counted as
  inconsistent. The score is 2/3.
\<close>

theorem hierarchy_consistency_shared_id_counterexample:
  "noDependencyEdges sharedIdTree \<and> edgeCounts sharedIdTree = (3, 2) \<and>
   score (computeHierarchyConsistency sharedIdTree) = 2 / 3"
proof -
  have a: "noDependencyEdges sharedIdTree" by code_simp
  have b: "edgeCounts sharedIdTree = (3, 2)" by code_simp
  from a b show ?thesis by (simp add: computeHierarchyConsistency_def)
qed

text \<open>
  Claim C1, amended: in every tree whose node ids are pairwise distinct and in which no
  node has a dependency edge, every counted edge is consistent (the two counters are
  equal) and the hierarchy consistency score is exactly 1.
\<close>

theorem hierarchy_consistency_no_dependency_edges:
  assumes "distinct (ids tree)" and "noDependencyEdges tree"
  shows "fst (edgeCounts tree) = snd (edgeCounts tree) \<and>
         score (computeHierarchyConsistency tree) = 1"
proof -
  from edgeCounts_consistent [OF assms] obtain b where "edgeCounts tree = (b, b)" ..
  then show ?thesis by (simp add: computeHierarchyConsistency_def)
qed

theorem hierarchy_consistency_no_dependency_edges_witness:
  "distinct (ids pureTree) \<and> noDependencyEdges pureTree \<and>
   fst (edgeCounts pureTree) = snd (edgeCounts pureTree) \<and>
   score (computeHierarchyConsistency pureTree) = 1"
proof -
  have a: "distinct (ids pureTree)" by code_simp
  have b: "noDependencyEdges pureTree" by code_simp
  from a b hierarchy_consistency_no_dependency_edges [OF a b] show ?thesis by simp
qed

section \<open>Hierarchy balance\<close>

lemma foldl_plus_sum_list:
  "foldl (\<lambda>a b. a + f b) s xs = s + sum_list (map f xs)" for s :: real
  by (induction xs arbitrary: s) simp_all

lemma childCounts_nonLeafCounts: "childCounts tree = nonLeafCounts (vals (getAllNodes tree))"
  by (simp add: childCounts_def nonLeafCounts_def)

lemma computeHierarchyBalance_formula:
  "score (computeHierarchyBalance tree) = balanceFormula (childCounts tree)"
  by (simp add: computeHierarchyBalance_def balanceFormula_def Let_def foldl_plus_sum_list
      populationVariance_def mean_def VAR_MAX_def comp_def)

lemma balanceFormula_2_10_1: "counts = [2, 10, 1] \<Longrightarrow> balanceFormula counts = 0"
  by (simp add: balanceFormula_def populationVariance_def mean_def power2_eq_square)

text \<open>
  Claim C6, as stated: for every tree the balance score is the formula applied to the
  child counts of all nodes that have a child. It fails when two nodes share an id: in
  \<open>shadowedParentTree\<close> the nodes \<open>r\<close> (two children) and the first \<open>a\<close> (one child) have
  children, so the formula gives \<open>1 - 0.25 / 5\<close>; the id map keeps the later, childless
  \<open>a\<close>, only one count is left, and the code returns 1.
\<close>

theorem hierarchy_balance_shared_id_counterexample:
  "nonLeafCounts (preorder shadowedParentTree) = [2, 1] \<and>
   balanceFormula (nonLeafCounts (preorder shadowedParentTree)) = 19 / 20 \<and>
   score (computeHierarchyBalance shadowedParentTree) = 1"
proof -
  have a: "nonLeafCounts (preorder shadowedParentTree) = [2, 1]" by code_simp
  have b: "childCounts shadowedParentTree = [2]" by code_simp
  have c: "balanceFormula [2, 1] = 19 / 20"
    by (simp add: balanceFormula_def populationVariance_def mean_def power2_eq_square)
  from a b c show ?thesis by (simp add: computeHierarchyBalance_formula balanceFormula_def)
qed

text \<open>
  Claim C6, amended: the sample is the child counts of the nodes that the id-keyed node
  map retains (for each id the last node carrying it) and that have a child. The score is
  1 when the sample has fewer than two entries, and otherwise 1 minus the minimum of 1 and
  the population variance of the sample divided by 5. When the ids of the tree are
  pairwise distinct the retained nodes are all the nodes of the tree. A sample
  \<open>[2, 10, 1]\<close> gives score exactly 0.
\<close>

theorem hierarchy_balance_formula:
  "score (computeHierarchyBalance tree) =
     balanceFormula (nonLeafCounts (vals (getAllNodes tree))) \<and>
   (distinct (ids tree) \<longrightarrow>
      score (computeHierarchyBalance tree) = balanceFormula (nonLeafCounts (preorder tree))) \<and>
   (nonLeafCounts (vals (getAllNodes tree)) = [2, 10, 1] \<longrightarrow>
      score (computeHierarchyBalance tree) = 0)"
  using balanceFormula_2_10_1 [of "nonLeafCounts (vals (getAllNodes tree))"]
  by (simp add: computeHierarchyBalance_formula childCounts_nonLeafCounts
      vals_getAllNodes_distinct)

theorem hierarchy_balance_formula_witness:
  "distinct (ids unbalancedTree) \<and>
   nonLeafCounts (vals (getAllNodes unbalancedTree)) = [2, 10, 1] \<and>
   nonLeafCounts (preorder unbalancedTree) = [2, 10, 1] \<and>
   score (computeHierarchyBalance unbalancedTree) = 0"
proof -
  have a: "distinct (ids unbalancedTree)" by code_simp
  have b: "nonLeafCounts (vals (getAllNodes unbalancedTree)) = [2, 10, 1]" by code_simp
  have c: "nonLeafCounts (preorder unbalancedTree) = [2, 10, 1]" by code_simp
  from a b c hierarchy_balance_formula [of unbalancedTree] show ?thesis by simp
qed

section \<open>Acyclicity\<close>

lemma hasCycle_mono:
  "hasCycle s \<Longrightarrow> hasCycle (dfs adj u s)"
  "hasCycle s \<Longrightarrow> hasCycle (fst (dfsNeighbors adj vs s))"
  by (induction adj u s and adj vs s rule: dfs_dfsNeighbors.induct) (auto simp: dfs.simps)

lemma closed_rtrancl:
  assumes "(x, y) \<in> E\<^sup>*" and "x \<in> B" and "\<forall>a\<in>B. \<forall>b. (a, b) \<in> E \<longrightarrow> b \<in> B"
  shows "y \<in> B"
  using assms by (induction rule: rtrancl_induct) auto

lemma dfsInv_leave:
  assumes inv: "dfsInv adj s'" and u: "u \<in> recursionStack s'"
    and nbrs: "set (neighbors adj u) \<subseteq> black s'"
  shows "dfsInv adj (s'\<lparr>recursionStack := recursionStack s' - {u}\<rparr>)"
proof -
  let ?s = "s'\<lparr>recursionStack := recursionStack s' - {u}\<rparr>"
  from inv u have uv: "u \<in> visited s'" by (auto simp: dfsInv_def)
  have bl: "black ?s = insert u (black s')" using uv by (auto simp: black_def)
  have closed: "\<forall>a\<in>black s'. \<forall>b. (a, b) \<in> edges adj \<longrightarrow> b \<in> black s'"
    using inv by (simp add: dfsInv_def)
  have "(u, u) \<notin> (edges adj)\<^sup>+"
  proof
    assume "(u, u) \<in> (edges adj)\<^sup>+"
    then obtain y where y: "(u, y) \<in> edges adj" "(y, u) \<in> (edges adj)\<^sup>*"
      by (auto dest: tranclD)
    from y(1) nbrs have "y \<in> black s'" by (auto simp: edges_def)
    from closed_rtrancl [OF y(2) this closed] have "u \<in> black s'" .
    with u show False by (simp add: black_def)
  qed
  moreover have "\<forall>y. (u, y) \<in> edges adj \<longrightarrow> y \<in> insert u (black s')"
    using nbrs by (auto simp: edges_def)
  ultimately show ?thesis
    using inv unfolding dfsInv_def bl by (auto simp: edges_def)
qed

lemma dfs_correct_aux:
  "\<not> hasCycle s \<Longrightarrow> u \<notin> visited s \<Longrightarrow> dfsInv adj s \<Longrightarrow>
   (\<forall>w\<in>recursionStack s. (w, u) \<in> (edges adj)\<^sup>+) \<Longrightarrow>
   (hasCycle (dfs adj u s) \<longrightarrow> cyclic (edges adj)) \<and>
   (\<not> hasCycle (dfs adj u s) \<longrightarrow>
      dfsInv adj (dfs adj u s) \<and> recursionStack (dfs adj u s) = recursionStack s \<and>
      visited s \<subseteq> visited (dfs adj u s) \<and> u \<in> visited (dfs adj u s))"
  "\<not> hasCycle s \<Longrightarrow> dfsInv adj s \<Longrightarrow> u' \<in> recursionStack s \<Longrightarrow>
   (\<forall>w\<in>recursionStack s. (w, u') \<in> (edges adj)\<^sup>*) \<Longrightarrow>
   set vs \<subseteq> set (neighbors adj u') \<Longrightarrow>
   (hasCycle (fst (dfsNeighbors adj vs s)) \<longrightarrow> cyclic (edges adj)) \<and>
   (\<not> hasCycle (fst (dfsNeighbors adj vs s)) \<longrightarrow>
      \<not> snd (dfsNeighbors adj vs s) \<and>
      dfsInv adj (fst (dfsNeighbors adj vs s)) \<and>
      recursionStack (fst (dfsNeighbors adj vs s)) = recursionStack s \<and>
      visited s \<subseteq> visited (fst (dfsNeighbors adj vs s)) \<and>
      set vs \<subseteq> black (fst (dfsNeighbors adj vs s)))"
proof (induction adj u s and adj vs s arbitrary: and u' rule: dfs_dfsNeighbors.induct)
  case (1 adj u s)
  let ?s1 = "enter u s"
  obtain s' r where res: "dfsNeighbors adj (neighbors adj u) ?s1 = (s', r)" by (cases "dfsNeighbors adj (neighbors adj u) ?s1")
  have nostack: "u \<notin> recursionStack s" using "1.prems" by (auto simp: dfsInv_def)
  have bl: "black ?s1 = black s" using "1.prems"(2) by (auto simp: black_def enter_def)
  have inv1: "dfsInv adj ?s1"
    using "1.prems"(3) unfolding dfsInv_def bl by (auto simp: enter_def)
  have path1: "\<forall>w\<in>recursionStack ?s1. (w, u) \<in> (edges adj)\<^sup>*"
    using "1.prems"(4) by (auto simp: enter_def)
  have nc1: "\<not> hasCycle ?s1" using "1.prems"(1) by (simp add: enter_def)
  have ust: "u \<in> recursionStack ?s1" by (simp add: enter_def)
  from "1.IH" [OF "1.prems"(1) nc1 inv1 ust path1] res
  have IH: "(hasCycle s' \<longrightarrow> cyclic (edges adj)) \<and>
     (\<not> hasCycle s' \<longrightarrow> \<not> r \<and> dfsInv adj s' \<and> recursionStack s' = recursionStack ?s1 \<and>
        visited ?s1 \<subseteq> visited s' \<and> set (neighbors adj u) \<subseteq> black s')"
    by simp
  show ?case
  proof (cases "hasCycle s'")
    case True
    with IH "1.prems"(1) res show ?thesis by (simp add: dfs.simps [of adj u s] split: if_splits)
  next
    case False
    with IH have f: "\<not> r" "dfsInv adj s'" "recursionStack s' = recursionStack ?s1"
      "visited ?s1 \<subseteq> visited s'" "set (neighbors adj u) \<subseteq> black s'" by auto
    have dres: "dfs adj u s = s'\<lparr>recursionStack := recursionStack s' - {u}\<rparr>"
      using "1.prems"(1) res f(1) by (simp add: dfs.simps [of adj u s])
    have "u \<in> recursionStack s'" using f(3) by (simp add: enter_def)
    from dfsInv_leave [OF f(2) this f(5)] have "dfsInv adj (dfs adj u s)" by (simp add: dres)
    moreover have "recursionStack (dfs adj u s) = recursionStack s"
      using f(3) nostack by (auto simp: dres enter_def)
    moreover have "visited s \<subseteq> visited (dfs adj u s)" "u \<in> visited (dfs adj u s)"
      using f(4) by (auto simp: dres enter_def)
    ultimately show ?thesis using False by (simp add: dres)
  qed
next
  case (2 adj s)
  then show ?case by simp
next
  case (3 adj v vs s)
  have vu: "(u', v) \<in> edges adj" using "3.prems"(5) by (auto simp: edges_def)
  show ?case
  proof (cases "v \<in> visited s")
    case False
    let ?s1 = "dfs adj v s"
    have path: "\<forall>w\<in>recursionStack s. (w, v) \<in> (edges adj)\<^sup>+"
      using "3.prems"(4) vu by (auto intro: rtrancl_into_trancl1)
    note d = "3.IH"(1) [OF False "3.prems"(1) False "3.prems"(2) path]
    show ?thesis
    proof (cases "hasCycle ?s1")
      case True
      with d have "cyclic (edges adj)" by simp
      moreover have "hasCycle (fst (dfsNeighbors adj (v # vs) s))"
        using False hasCycle_mono(2) [OF True] by simp
      ultimately show ?thesis by simp
    next
      case nc: False
      with d have d': "dfsInv adj ?s1" "recursionStack ?s1 = recursionStack s"
        "visited s \<subseteq> visited ?s1" "v \<in> visited ?s1" by auto
      have "set vs \<subseteq> set (neighbors adj u')" using "3.prems"(5) by simp
      from "3.IH"(2) [OF False nc d'(1) _ _ this] "3.prems"(3,4) d'(2)
      have r: "(hasCycle (fst (dfsNeighbors adj vs ?s1)) \<longrightarrow> cyclic (edges adj)) \<and>
        (\<not> hasCycle (fst (dfsNeighbors adj vs ?s1)) \<longrightarrow>
          \<not> snd (dfsNeighbors adj vs ?s1) \<and>
          dfsInv adj (fst (dfsNeighbors adj vs ?s1)) \<and>
          recursionStack (fst (dfsNeighbors adj vs ?s1)) = recursionStack ?s1 \<and>
          visited ?s1 \<subseteq> visited (fst (dfsNeighbors adj vs ?s1)) \<and>
          set vs \<subseteq> black (fst (dfsNeighbors adj vs ?s1)))"
        by simp
      have vns: "v \<notin> recursionStack s" using False "3.prems"(2) by (auto simp: dfsInv_def)
      have eq: "dfsNeighbors adj (v # vs) s = dfsNeighbors adj vs ?s1" using False by simp
      show ?thesis unfolding eq using r d' vns by (auto simp: black_def)
    qed
  next
    case True
    show ?thesis
    proof (cases "v \<in> recursionStack s")
      case st: True
      with "3.prems"(4) have "(v, u') \<in> (edges adj)\<^sup>*" by simp
      from this vu have "(v, v) \<in> (edges adj)\<^sup>+" by (rule rtrancl_into_trancl1)
      then have "cyclic (edges adj)" by (auto simp: cyclic_def)
      with True st show ?thesis by simp
    next
      case st: False
      have "set vs \<subseteq> set (neighbors adj u')" using "3.prems"(5) by simp
      note r = "3.IH"(3) [OF _ st "3.prems"(1,2,3,4) this]
      have eq: "dfsNeighbors adj (v # vs) s = dfsNeighbors adj vs s" using True st by simp
      show ?thesis unfolding eq using r True st by (auto simp: black_def)
    qed
  qed
qed

lemma dfsRoots_correct_aux:
  "\<not> hasCycle s \<Longrightarrow> dfsInv adj s \<Longrightarrow> recursionStack s = {} \<Longrightarrow>
   (hasCycle (dfsRoots adj ks s) \<longrightarrow> cyclic (edges adj)) \<and>
   (\<not> hasCycle (dfsRoots adj ks s) \<longrightarrow>
      dfsInv adj (dfsRoots adj ks s) \<and> recursionStack (dfsRoots adj ks s) = {} \<and>
      visited s \<union> set ks \<subseteq> visited (dfsRoots adj ks s))"
proof (induction ks arbitrary: s)
  case Nil
  then show ?case by simp
next
  case (Cons k ks)
  show ?case
  proof (cases "k \<in> visited s")
    case True
    with Cons.IH [OF Cons.prems] Cons.prems(1) show ?thesis by (auto simp: Let_def)
  next
    case False
    from dfs_correct_aux(1) [OF Cons.prems(1) False Cons.prems(2)] Cons.prems(3)
    have d: "(hasCycle (dfs adj k s) \<longrightarrow> cyclic (edges adj)) \<and>
      (\<not> hasCycle (dfs adj k s) \<longrightarrow>
        dfsInv adj (dfs adj k s) \<and> recursionStack (dfs adj k s) = {} \<and>
        visited s \<subseteq> visited (dfs adj k s) \<and> k \<in> visited (dfs adj k s))"
      by simp
    show ?thesis
    proof (cases "hasCycle (dfs adj k s)")
      case True
      with d False show ?thesis by (simp add: Let_def)
    next
      case nc: False
      with d have d': "dfsInv adj (dfs adj k s)" "recursionStack (dfs adj k s) = {}"
        "visited s \<subseteq> visited (dfs adj k s)" "k \<in> visited (dfs adj k s)" by auto
      from Cons.IH [OF nc d'(1,2)] d'(3,4) False nc show ?thesis
        by (auto simp: Let_def)
    qed
  qed
qed

lemma dfsRoots_detects_cycles:
  assumes "\<forall>x. neighbors adj x \<noteq> [] \<longrightarrow> x \<in> set ks"
  shows "hasCycle (dfsRoots adj ks initialDfsState) \<longleftrightarrow> cyclic (edges adj)"
proof -
  let ?s = "dfsRoots adj ks initialDfsState"
  have init: "\<not> hasCycle initialDfsState" "dfsInv adj initialDfsState"
    "recursionStack initialDfsState = {}"
    by (simp_all add: initialDfsState_def dfsInv_def black_def)
  note aux = dfsRoots_correct_aux [OF init, of ks]
  have "\<not> cyclic (edges adj)" if nc: "\<not> hasCycle ?s"
  proof
    assume "cyclic (edges adj)"
    then obtain x where x: "(x, x) \<in> (edges adj)\<^sup>+" by (auto simp: cyclic_def)
    then obtain y where "(x, y) \<in> edges adj" by (auto dest: tranclD)
    then have "neighbors adj x \<noteq> []" by (auto simp: edges_def)
    with assms have "x \<in> set ks" by simp
    with aux nc have "x \<in> black ?s" by (auto simp: black_def)
    with aux nc x show False by (auto simp: dfsInv_def)
  qed
  with aux show ?thesis by blast
qed

lemma map_of_pushTo:
  "map_of (pushTo adj k v) k' =
     (if k' = k then map_option (\<lambda>vs. vs @ [v]) (map_of adj k) else map_of adj k')"
  by (simp add: pushTo_def update_conv' split: option.splits)

lemma map_of_fold_pushTo:
  "map_of (fold (\<lambda>x a. if P x then pushTo a k (f x) else a) xs adj) k' =
     (if k' = k then map_option (\<lambda>vs. vs @ map f (filter P xs)) (map_of adj k)
      else map_of adj k')"
proof (induction xs arbitrary: adj)
  case Nil
  then show ?case by (simp add: option.map_ident)
next
  case (Cons x xs)
  then show ?case
    by (cases "map_of adj k") (simp_all add: map_of_pushTo)
qed

lemma map_of_fold_pushTo_all:
  "map_of (fold (\<lambda>x a. pushTo a k (f x)) xs adj) k' =
     (if k' = k then map_option (\<lambda>vs. vs @ map f xs) (map_of adj k) else map_of adj k')"
  using map_of_fold_pushTo [of "\<lambda>_. True" k f xs adj k'] by simp

lemma map_of_addNodeEdges:
  "map_of (addNodeEdges nodes n adj) k' =
     (if k' = node_id n then map_option (\<lambda>vs. vs @ outIds (keys nodes) n) (map_of adj (node_id n))
      else map_of adj k')"
proof -
  have has: "has nodes d \<longleftrightarrow> d \<in> set (keys nodes)" for d
    by (simp add: has_def keys_def map_of_eq_None_iff)
  show ?thesis
    unfolding addNodeEdges_def Let_def
    by (cases "map_of adj (node_id n)")
      (simp_all add: map_of_fold_pushTo [of _ _ "\<lambda>d. d"] map_of_fold_pushTo_all outIds_def has
        split: option.splits)
qed

lemma map_of_fold_addNodeEdges:
  assumes "distinct (map node_id ns)"
  shows "map_of (fold (addNodeEdges nodes) ns adj) k =
     (case find (\<lambda>n. node_id n = k) ns of
        None \<Rightarrow> map_of adj k
      | Some n \<Rightarrow> map_option (\<lambda>vs. vs @ outIds (keys nodes) n) (map_of adj k))"
  using assms
proof (induction ns arbitrary: adj)
  case Nil
  then show ?case by simp
next
  case (Cons n ns)
  have "find (\<lambda>m. node_id m = node_id n) ns = None"
  proof -
    have "node_id m \<noteq> node_id n" if "m \<in> set ns" for m
      using Cons.prems that by (metis distinct.simps(2) image_eqI list.simps(9) set_map)
    then show ?thesis by (simp add: find_None_iff)
  qed
  with Cons show ?case
    by (auto simp: map_of_addNodeEdges split: option.splits)
qed

lemma map_of_initial_adj:
  "map_of (fold (\<lambda>k a. AList.update k [] a) ks adj) k =
     (if k \<in> set ks then Some [] else map_of adj k)"
  by (induction ks arbitrary: adj rule: rev_induct) (auto simp: update_conv')

lemma neighbors_buildGraph:
  assumes "distinct (map node_id (vals nodes))" and "keys nodes = map node_id (vals nodes)"
  shows "neighbors (buildGraph nodes) k =
     (case find (\<lambda>n. node_id n = k) (vals nodes) of
        None \<Rightarrow> []
      | Some n \<Rightarrow> outIds (keys nodes) n)"
proof (cases "find (\<lambda>n. node_id n = k) (vals nodes)")
  case None
  then have "k \<notin> set (keys nodes)" by (auto simp: find_None_iff assms(2))
  with None show ?thesis
    by (simp add: neighbors_def buildGraph_def map_of_fold_addNodeEdges [OF assms(1)]
        map_of_initial_adj)
next
  case (Some n)
  then have "k \<in> set (keys nodes)"
    by (auto simp: find_Some_iff assms(2) intro!: image_eqI)
  with Some show ?thesis
    by (simp add: neighbors_def buildGraph_def map_of_fold_addNodeEdges [OF assms(1)]
        map_of_initial_adj)
qed

lemma edges_buildGraph:
  assumes "distinct (map node_id (vals nodes))" and "keys nodes = map node_id (vals nodes)"
  shows "edges (buildGraph nodes) = mergedEdges (vals nodes)"
proof -
  have f: "find (\<lambda>n. node_id n = k) (vals nodes) = Some n \<longleftrightarrow> n \<in> set (vals nodes) \<and> node_id n = k"
    for k n
  proof
    assume "find (\<lambda>n. node_id n = k) (vals nodes) = Some n"
    then show "n \<in> set (vals nodes) \<and> node_id n = k"
      by (auto simp: find_Some_iff)
  next
    assume a: "n \<in> set (vals nodes) \<and> node_id n = k"
    then obtain m where m: "find (\<lambda>n. node_id n = k) (vals nodes) = Some m"
      by (cases "find (\<lambda>n. node_id n = k) (vals nodes)") (auto simp: find_None_iff)
    then have "m \<in> set (vals nodes)" "node_id m = k" by (auto simp: find_Some_iff)
    with a assms(1) have "m = n" by (auto simp: distinct_map dest: inj_onD)
    with m show "find (\<lambda>n. node_id n = k) (vals nodes) = Some n" by simp
  qed
  have "(a, b) \<in> edges (buildGraph nodes) \<longleftrightarrow> (a, b) \<in> mergedEdges (vals nodes)" for a b
  proof (cases "find (\<lambda>n. node_id n = a) (vals nodes)")
    case None
    then have "\<forall>n\<in>set (vals nodes). node_id n \<noteq> a" by (auto simp: find_None_iff)
    with None show ?thesis
      by (auto simp: edges_def mergedEdges_def neighbors_buildGraph [OF assms])
  next
    case (Some n)
    then have n: "n \<in> set (vals nodes) \<and> node_id n = a" by (simp add: f)
    have "m = n" if "m \<in> set (vals nodes)" "node_id m = a" for m
      using that f [of a m] Some by simp
    with Some n show ?thesis
      by (auto simp: edges_def mergedEdges_def neighbors_buildGraph [OF assms]
          assms(2) [symmetric])
  qed
  then show ?thesis by auto
qed

lemma fold_update_entries:
  "set (fold (\<lambda>x. AList.update (f x) x) xs m) \<subseteq> set m \<union> (\<lambda>x. (f x, x)) ` set xs"
proof (induction xs arbitrary: m)
  case Nil
  then show ?case by simp
next
  case (Cons x xs)
  have "set (AList.update (f x) x m) \<subseteq> insert (f x, x) (set m)"
    by (induction m) auto
  with Cons [of "AList.update (f x) x m"] show ?case by auto
qed

lemma distinct_fold_update:
  "distinct (map fst m) \<Longrightarrow> distinct (map fst (fold (\<lambda>x. AList.update (f x) (g x)) xs m))"
  by (induction xs arbitrary: m) (simp_all add: distinct_update)

lemma getAllNodes_keys: "keys (getAllNodes tree) = map node_id (vals (getAllNodes tree))"
proof -
  have "\<forall>e\<in>set (getAllNodes tree). fst e = node_id (snd e)"
    using fold_update_entries [of node_id "preorder tree" "[]"]
    by (auto simp: getAllNodes_def traverseNodes_fold)
  then show ?thesis by (simp add: keys_def vals_def)
qed

lemma getAllNodes_distinct_keys: "distinct (keys (getAllNodes tree))"
  unfolding keys_def getAllNodes_def traverseNodes_fold
  by (rule distinct_fold_update) simp

lemma set_keys_getAllNodes: "set (keys (getAllNodes tree)) = set (ids tree)"
  by (simp add: keys_def getAllNodes_def traverseNodes_fold keys_fold_update ids_def)

lemma computeAcyclicity_cyclic:
  "score (computeAcyclicity tree) =
     (if cyclic (mergedEdges (vals (getAllNodes tree))) then 0 else 1)"
proof -
  let ?nodes = "getAllNodes tree"
  have d: "distinct (map node_id (vals ?nodes))"
    using getAllNodes_distinct_keys [of tree] by (simp add: getAllNodes_keys)
  note e = edges_buildGraph [OF d getAllNodes_keys]
  have "x \<in> set (keys ?nodes)" if "neighbors (buildGraph ?nodes) x \<noteq> []" for x
    using that unfolding neighbors_buildGraph [OF d getAllNodes_keys] getAllNodes_keys
    by (auto split: option.splits simp: find_Some_iff)
  then have "hasCycle (dfsRoots (buildGraph ?nodes) (keys ?nodes) initialDfsState)
      \<longleftrightarrow> cyclic (edges (buildGraph ?nodes))"
    by (intro dfsRoots_detects_cycles) blast
  then show ?thesis by (simp add: computeAcyclicity_def Let_def e)
qed


lemma after_last: "k \<notin> set zs \<Longrightarrow> after k (ys @ k # zs) = zs"
  by (induction ys) auto

lemma set_after: "set (after k xs) \<subseteq> set xs"
  by (induction xs) auto

lemma length_after: "k \<in> set xs \<Longrightarrow> length (after k xs) < length xs"
proof (induction xs)
  case Nil
  then show ?case by simp
next
  case (Cons x xs)
  then show ?case by (cases "k \<in> set xs") auto
qed

lemma after_decreasing: "b \<in> set (after a xs) \<Longrightarrow> length (after b xs) < length (after a xs)"
proof (induction xs)
  case Nil
  then show ?case by simp
next
  case (Cons x xs)
  show ?case
  proof (cases "a \<in> set xs")
    case True
    with Cons.prems have b: "b \<in> set (after a xs)" by simp
    with set_after [of a xs] have "b \<in> set xs" by auto
    with True Cons.IH [OF b] show ?thesis by simp
  next
    case False
    with Cons.prems have "b \<in> set xs" by simp
    with False length_after [OF this] show ?thesis by simp
  qed
qed

lemma set_update_cases:
  "distinct (map fst m) \<Longrightarrow> (k, v) \<in> set (AList.update k' v' m) \<Longrightarrow>
   (k, v) = (k', v') \<or> ((k, v) \<in> set m \<and> k \<noteq> k')"
  by (induction m) (force split: if_splits)+

lemma retained_is_last:
  "(k, n) \<in> set (fold (\<lambda>x. AList.update (f x) x) xs []) \<Longrightarrow>
   \<exists>ys zs. xs = ys @ n # zs \<and> f n = k \<and> k \<notin> f ` set zs"
proof (induction xs arbitrary: k n rule: rev_induct)
  case Nil
  then show ?case by simp
next
  case (snoc x xs)
  from snoc.prems have "(k, n) \<in> set (AList.update (f x) x (fold (\<lambda>x. AList.update (f x) x) xs []))"
    by simp
  have "distinct (map fst (fold (\<lambda>x. AList.update (f x) x) xs []))"
    by (rule distinct_fold_update) simp
  from set_update_cases [OF this \<open>(k, n) \<in> set (AList.update (f x) x (fold (\<lambda>x. AList.update (f x) x) xs []))\<close>]
  show ?case
  proof
    assume "(k, n) = (f x, x)"
    then have "xs @ [x] = xs @ n # [] \<and> f n = k \<and> k \<notin> f ` set []" by simp
    then show ?thesis by blast
  next
    assume a: "(k, n) \<in> set (fold (\<lambda>x. AList.update (f x) x) xs []) \<and> k \<noteq> f x"
    with snoc.IH obtain ys zs where "xs = ys @ n # zs" "f n = k" "k \<notin> f ` set zs" by blast
    with a have "xs @ [x] = ys @ n # (zs @ [x]) \<and> f n = k \<and> k \<notin> f ` set (zs @ [x])" by auto
    then show ?thesis by blast
  qed
qed

lemma self_in_preorder: "t \<in> set (preorder t)"
  by (cases t) simp

lemma children_follow_forest:
  assumes tree: "\<And>c ys n zs. c \<in> set ts \<Longrightarrow> preorder c = ys @ n # zs \<Longrightarrow> set (children n) \<subseteq> set zs"
    and "concat (map preorder ts) = ys @ n # zs"
  shows "set (children n) \<subseteq> set zs"
  using assms
proof (induction ts arbitrary: ys)
  case Nil
  then show ?case by simp
next
  case (Cons c ts)
  let ?rest = "concat (map preorder ts)"
  have tr: "set (children n) \<subseteq> set zs" if "c \<in> set ts" "preorder c = ys @ n # zs" for c ys n zs
    using Cons.prems(1) [of c ys n zs] that by simp
  from Cons.prems(2) have "preorder c @ ?rest = ys @ n # zs" by simp
  then consider us where "preorder c = ys @ us" "us @ ?rest = n # zs"
    | us where "preorder c @ us = ys" "?rest = us @ n # zs"
    by (auto simp: append_eq_append_conv2)
  then show ?case
  proof cases
    case 1
    show ?thesis
    proof (cases us)
      case Nil
      with 1 have "?rest = [] @ n # zs" by simp
      from Cons.IH [OF tr this] show ?thesis by simp
    next
      case (Cons u us')
      with 1 have "preorder c = ys @ n # us'" "zs = us' @ ?rest" by auto
      with Cons.prems(1) [of c ys n us'] show ?thesis by auto
    qed
  next
    case 2
    from Cons.IH [OF tr 2(2)] show ?thesis by simp
  qed
qed

lemma children_follow:
  "preorder t = ys @ n # zs \<Longrightarrow> set (children n) \<subseteq> set zs"
proof (induction t arbitrary: ys n zs)
  case (TaskNode i tt d p e cs ds)
  show ?case
  proof (cases ys)
    case Nil
    with TaskNode.prems have "n = TaskNode i tt d p e cs ds" "zs = concat (map preorder cs)"
      by auto
    then show ?thesis using self_in_preorder by auto
  next
    case (Cons y ys')
    with TaskNode.prems have "concat (map preorder cs) = ys' @ n # zs" by simp
    from children_follow_forest [OF _ this] TaskNode.IH show ?thesis by blast
  qed
qed

lemma retained_child_after:
  assumes "n \<in> set (vals (getAllNodes tree))" and "c \<in> set (children n)"
  shows "node_id c \<in> set (after (node_id n) (ids tree))"
proof -
  from assms(1) obtain k where "(k, n) \<in> set (getAllNodes tree)" by (auto simp: vals_def)
  from retained_is_last [OF this [unfolded getAllNodes_def traverseNodes_fold]]
  obtain ys zs where d: "preorder tree = ys @ n # zs" "node_id n \<notin> node_id ` set zs" by auto
  from children_follow [OF d(1)] assms(2) have "c \<in> set zs" by auto
  moreover have "after (node_id n) (ids tree) = map node_id zs"
    using after_last [of "node_id n" "map node_id zs" "map node_id ys"] d by (simp add: ids_def)
  ultimately show ?thesis by simp
qed

lemma retained_in_preorder: "set (vals (getAllNodes tree)) \<subseteq> set (preorder tree)"
  using fold_update_entries [of node_id "preorder tree" "[]"]
  by (auto simp: getAllNodes_def traverseNodes_fold vals_def)

lemma set_ids_retained: "set (map node_id (vals (getAllNodes tree))) = set (ids tree)"
  using set_keys_getAllNodes [of tree] by (simp add: getAllNodes_keys)

lemma no_dependency_edges_acyclic:
  assumes "noDependencyEdges tree"
  shows "\<not> cyclic (mergedEdges (vals (getAllNodes tree)))"
proof -
  let ?E = "mergedEdges (vals (getAllNodes tree))"
  let ?r = "\<lambda>k. length (after k (ids tree))"
  have step: "?r b < ?r a" if "(a, b) \<in> ?E" for a b
  proof -
    from that obtain n where n: "n \<in> set (vals (getAllNodes tree))" "node_id n = a"
      "b \<in> set (outIds (map node_id (vals (getAllNodes tree))) n)"
      by (auto simp: mergedEdges_def)
    from n(1) retained_in_preorder have "n \<in> set (preorder tree)" by auto
    with assms have "case dependencies n of None \<Rightarrow> True
        | Some deps \<Rightarrow> \<forall>d\<in>set deps. d \<notin> set (ids tree)"
      by (auto simp: noDependencyEdges_def list_all_iff split: option.splits)
    then have "outIds (map node_id (vals (getAllNodes tree))) n = map node_id (children n)"
      unfolding outIds_def set_ids_retained by (auto split: option.splits simp: filter_empty_conv)
    with n(3) obtain c where "c \<in> set (children n)" "b = node_id c" by auto
    with retained_child_after [OF n(1)] n(2) show ?thesis
      by (auto intro: after_decreasing)
  qed
  have "?r y < ?r x" if "(x, y) \<in> ?E\<^sup>+" for x y
    using that by (induction rule: trancl_induct) (auto dest: step)
  then show ?thesis by (fastforce simp: cyclic_def)
qed

lemma self_dependency_cyclic:
  assumes "n \<in> set ns" and "dependencies n = Some deps" and "node_id n \<in> set deps"
  shows "cyclic (mergedEdges ns)"
proof -
  from assms have "(node_id n, node_id n) \<in> mergedEdges ns"
    by (auto simp: mergedEdges_def outIds_def)
  then show ?thesis by (auto simp: cyclic_def)
qed

text \<open>
  Claim C2, as stated: for every tree, a node that depends on itself makes the merged
  graph cyclic and the score 0. It fails when two nodes share an id: in
  \<open>shadowedSelfDependency\<close> the first node \<open>a\<close> depends on itself, but the id map keeps
  the later node \<open>a\<close>, which has no dependencies; no edge is built for the first one and
  the score is 1.
\<close>

theorem acyclicity_shadowed_self_dependency_counterexample:
  "(\<exists>n\<in>set (preorder shadowedSelfDependency).
      \<exists>deps. dependencies n = Some deps \<and> node_id n \<in> set deps) \<and>
   cyclic (mergedEdges (preorder shadowedSelfDependency)) \<and>
   score (computeAcyclicity shadowedSelfDependency) = 1"
proof -
  let ?n = "mk ''a'' [] (Some [''a''])"
  have n: "?n \<in> set (preorder shadowedSelfDependency)"
    by (simp add: shadowedSelfDependency_def mk_def)
  have d: "dependencies ?n = Some [''a'']" "node_id ?n \<in> set [''a'']" by (simp_all add: mk_def)
  have "\<not> hasCycle (dfsRoots (buildGraph (getAllNodes shadowedSelfDependency))
          (keys (getAllNodes shadowedSelfDependency)) initialDfsState)"
    by code_simp
  then have "score (computeAcyclicity shadowedSelfDependency) = 1"
    by (simp add: computeAcyclicity_def Let_def)
  with n d self_dependency_cyclic [OF n d] show ?thesis by blast
qed

text \<open>
  Claim C2, amended: the graph is built from the nodes that the id-keyed node map retains
  (for each id the last node carrying it; all nodes when the ids are pairwise distinct):
  decomposition edges from a retained node to each child and dependency edges from a
  retained node to each dependency id that resolves in the tree. The score is 0 if this
  graph has a cycle and 1 otherwise. In particular a retained node that depends on itself
  yields 0, so does a tree that is a single node depending on itself, and every tree
  without dependency edges, also one in which nodes share ids, yields 1.
\<close>

theorem acyclicity_binary:
  "score (computeAcyclicity tree) =
     (if cyclic (mergedEdges (vals (getAllNodes tree))) then 0 else 1) \<and>
   (distinct (ids tree) \<longrightarrow> vals (getAllNodes tree) = preorder tree) \<and>
   (\<forall>n\<in>set (vals (getAllNodes tree)). \<forall>deps.
      dependencies n = Some deps \<and> node_id n \<in> set deps \<longrightarrow>
      score (computeAcyclicity tree) = 0) \<and>
   (\<forall>i t d p e deps. i \<in> set deps \<longrightarrow>
      score (computeAcyclicity (TaskNode i t d p e [] (Some deps))) = 0) \<and>
   (noDependencyEdges tree \<longrightarrow> score (computeAcyclicity tree) = 1)"
proof -
  have single: "score (computeAcyclicity (TaskNode i t d p e [] (Some deps))) = 0"
    if "i \<in> set deps" for i t d p e deps
  proof -
    let ?t = "TaskNode i t d p e [] (Some deps)"
    have "vals (getAllNodes ?t) = [?t]" by (simp add: getAllNodes_def vals_def)
    with self_dependency_cyclic [of ?t "[?t]" deps] that show ?thesis
      by (simp add: computeAcyclicity_cyclic)
  qed
  show ?thesis
    using self_dependency_cyclic [of _ "vals (getAllNodes tree)"] single
    by (auto simp: computeAcyclicity_cyclic vals_getAllNodes_distinct
        no_dependency_edges_acyclic)
qed

theorem acyclicity_binary_witness:
  "distinct (ids selfDependentRoot) \<and>
   vals (getAllNodes selfDependentRoot) = preorder selfDependentRoot \<and>
   selfDependentRoot \<in> set (vals (getAllNodes selfDependentRoot)) \<and>
   dependencies selfDependentRoot = Some [''root''] \<and>
   node_id selfDependentRoot \<in> set [''root''] \<and>
   score (computeAcyclicity selfDependentRoot) = 0 \<and>
   noDependencyEdges sharedIdTree \<and>
   score (computeAcyclicity sharedIdTree) = 1"
proof -
  have a: "distinct (ids selfDependentRoot)" by code_simp
  have b: "selfDependentRoot \<in> set (vals (getAllNodes selfDependentRoot))"
    by (simp add: selfDependentRoot_def mk_def getAllNodes_def vals_def)
  have c: "dependencies selfDependentRoot = Some [''root'']"
    "node_id selfDependentRoot \<in> set [''root'']"
    by (simp_all add: selfDependentRoot_def mk_def)
  have d: "noDependencyEdges sharedIdTree" by code_simp
  from a b c d acyclicity_binary [of selfDependentRoot] acyclicity_binary [of sharedIdTree]
  show ?thesis by blast
qed

section \<open>Redundancy and cosine similarity\<close>

lemma collectNodes_preorder:
  "collectNodes t ns = ns @ preorder t"
  "collectNodesEach cs ns = ns @ concat (map preorder cs)"
  by (induction t ns and cs ns rule: collectNodes_collectNodesEach.induct) simp_all

lemma getAllNodesArray_preorder: "getAllNodesArray tree = preorder tree"
  by (simp add: getAllNodesArray_def collectNodes_preorder)

lemma similarityLoop_fold:
  "fold (\<lambda>i acc. case acc of (dotProduct, normA, normB) \<Rightarrow>
             (dotProduct + a ! i * b ! i, normA + a ! i * a ! i, normB + b ! i * b ! i))
       [0..<n] (x, y, z) =
   (x + (\<Sum>i<n. a ! i * b ! i), y + (\<Sum>i<n. a ! i * a ! i), z + (\<Sum>i<n. b ! i * b ! i))"
  by (induction n) (simp_all add: algebra_simps)

lemma cosineSimilarity_cosine:
  "cosineSimilarity a b =
     (if length a \<noteq> length b then Inl VectorsLengthMismatch else Inr (cosine a b))"
  by (simp add: cosineSimilarity_def similarityLoop_def similarityLoop_fold cosine_def)

lemma innerPairs_result:
  "innerPairs vecs th i js (r, t, s) =
     (if \<forall>j\<in>set js. length (vecs ! i) = length (vecs ! j)
      then Inr (r + length (filter (\<lambda>j. exceeds (cosine (vecs ! i) (vecs ! j)) th) js),
                t + length js,
                s @ map (\<lambda>j. (i, j, cosine (vecs ! i) (vecs ! j)))
                      (filter (\<lambda>j. exceeds (cosine (vecs ! i) (vecs ! j)) th) js))
      else Inl VectorsLengthMismatch)"
proof (induction js arbitrary: r t s)
  case Nil
  then show ?case by simp
next
  case (Cons j js)
  then show ?case by (simp add: cosineSimilarity_cosine)
qed

lemma outerPairs_result:
  "outerPairs vecs th n rows (r, t, s) =
     (if \<forall>(i, j)\<in>set (pairsFrom n rows). length (vecs ! i) = length (vecs ! j)
      then Inr (r + length (filter (\<lambda>(i, j). exceeds (cosine (vecs ! i) (vecs ! j)) th) (pairsFrom n rows)),
                t + length (pairsFrom n rows),
                s @ map (\<lambda>(i, j). (i, j, cosine (vecs ! i) (vecs ! j)))
                      (filter (\<lambda>(i, j). exceeds (cosine (vecs ! i) (vecs ! j)) th) (pairsFrom n rows)))
      else Inl VectorsLengthMismatch)"
proof (induction rows arbitrary: r t s)
  case Nil
  then show ?case by (simp add: pairsFrom_def)
next
  case (Cons i rows)
  have p: "pairsFrom n (i # rows) = map (\<lambda>j. (i, j)) [i + 1..<n] @ pairsFrom n rows"
    by (simp add: pairsFrom_def)
  show ?case
  proof (cases "\<forall>j\<in>set [i + 1..<n]. length (vecs ! i) = length (vecs ! j)")
    case True
    then show ?thesis
      unfolding p by (simp add: innerPairs_result Cons.IH filter_map comp_def ball_Un)
  next
    case False
    then show ?thesis
      unfolding p by (auto simp: innerPairs_result)
  qed
qed

lemma set_allPairs: "set (allPairs n) = {(i, j). i < j \<and> j < n}"
proof -
  have "(a, b) \<in> set (allPairs n)" if "a < b" "b < n" for a b
  proof -
    from that have "a \<in> {0..<n}" "(a, b) \<in> Pair a ` {Suc a..<n}" by auto
    then show ?thesis unfolding allPairs_def by (auto intro!: bexI [of _ a])
  qed
  then show ?thesis by (auto simp: allPairs_def)
qed

lemma embedNodes_length:
  "embedNodes embedClient nodes acc w = (Inr vecs, w1) \<Longrightarrow> length vecs = length acc + length nodes"
proof (induction nodes arbitrary: acc w)
  case Nil
  then show ?case by simp
next
  case (Cons node nodes)
  then show ?case by (auto split: prod.splits sum.splits)
qed

lemma computeRedundancy_embedded:
  assumes "2 \<le> length (preorder tree)"
    and "embedNodes embedClient (preorder tree) [] w = (Inr vecs, w1)"
  shows "computeRedundancy tree embedClient th w =
     (if sameLengths vecs
      then (Inr \<lparr>score = 1 - real (length (redundantPairsOf vecs th)) / real (length (allPairs (length vecs))),
                 details = Some (PairDetails (length (redundantPairsOf vecs th))
                    (length (allPairs (length vecs))) (Some th) (take 5 (redundantPairsOf vecs th)))\<rparr>, w1)
      else (Inl VectorsLengthMismatch, w1))"
proof -
  from embedNodes_length [OF assms(2)] have n: "length vecs = length (preorder tree)" by simp
  have p: "pairsFrom (length vecs) [0..<length vecs] = allPairs (length vecs)"
    by (simp add: pairsFrom_def allPairs_def)
  have pos: "0 < length (allPairs (length vecs))"
  proof -
    have "(0, 1) \<in> set (allPairs (length vecs))" using assms(1) n by (simp add: set_allPairs)
    then show ?thesis by (auto simp: length_greater_0_conv simp del: length_greater_0_conv)
  qed
  show ?thesis
    using assms pos
    by (simp add: computeRedundancy_def getAllNodesArray_preorder Let_def n [symmetric]
        outerPairs_result p sameLengths_def list_all_iff redundantPairsOf_def)
qed


section \<open>Granularity and executability\<close>

lemma collectLeaves_preorder:
  "collectLeaves t ls = ls @ filter isLeaf (preorder t)"
  "collectLeavesEach cs ls = ls @ filter isLeaf (concat (map preorder cs))"
proof (induction t ls and cs ls rule: collectLeaves_collectLeavesEach.induct)
  case (1 i t d p e cs ds leaves)
  then show ?case by (cases cs) (simp_all add: isLeaf_def)
qed simp_all

lemma getLeafNodes_preorder: "getLeafNodes tree = filter isLeaf (preorder tree)"
  by (simp add: getLeafNodes_def collectLeaves_preorder)

lemma has_leaf: "\<exists>n\<in>set (preorder t). isLeaf n"
proof (induction t)
  case (TaskNode i t d p e cs ds)
  show ?case
  proof (cases cs)
    case Nil
    then show ?thesis by (simp add: isLeaf_def)
  next
    case (Cons c cs')
    with TaskNode [of c] show ?thesis by auto
  qed
qed

lemma getLeafNodes_nonempty: "getLeafNodes tree \<noteq> []"
  using has_leaf [of tree] by (auto simp: getLeafNodes_preorder filter_empty_conv)

lemma askAll_length: "askAll chat prompts w = (Inr rs, w1) \<Longrightarrow> length rs = length prompts"
proof (induction prompts arbitrary: w rs)
  case Nil
  then show ?case by simp
next
  case (Cons p ps)
  then show ?case by (auto split: prod.splits sum.splits)
qed

lemma granularityLoop_askAll:
  "granularityLoop chat js idealRange alpha leaves scores efforts w =
     (case askAll chat (map (getEstimateEffortPrompt js) leaves) w of
        (Inl err, w1) \<Rightarrow> (Inl err, w1)
      | (Inr rs, w1) \<Rightarrow>
          (Inr (scores @ map (leafScore js idealRange alpha) rs,
                efforts @ map2 (effortEntry js idealRange alpha) leaves rs), w1))"
proof (induction leaves arbitrary: scores efforts w)
  case Nil
  then show ?case by simp
next
  case (Cons leaf leaves)
  show ?case
  proof (cases "chat (userMessage (getEstimateEffortPrompt js leaf)) w")
    case (Pair res w1)
    show ?thesis
    proof (cases res)
      case (Inl err)
      with Pair show ?thesis by simp
    next
      case (Inr response)
      with Pair show ?thesis
        by (cases "parseFloat js (trim response)")
          (simp_all add: Cons.IH leafScore_def effortEntry_def Let_def
            split: prod.splits sum.splits)
    qed
  qed
qed

lemma executabilityLoop_askAll:
  "executabilityLoop chat js leaves ratings w =
     (case askAll chat (map (getJudgeExecutabilityPrompt js) leaves) w of
        (Inl err, w1) \<Rightarrow> (Inl err, w1)
      | (Inr rs, w1) \<Rightarrow> (Inr (ratings @ map2 (ratingEntry js) leaves rs), w1))"
proof (induction leaves arbitrary: ratings w)
  case Nil
  then show ?case by simp
next
  case (Cons leaf leaves)
  show ?case
  proof (cases "chat (userMessage (getJudgeExecutabilityPrompt js leaf)) w")
    case (Pair res w1)
    then show ?thesis
      by (cases res) (simp_all add: Cons.IH split: prod.splits sum.splits)
  qed
qed

lemma foldl_plus_sum_list': "foldl (\<lambda>a b. a + b) s xs = s + sum_list xs" for s :: real
  by (induction xs arbitrary: s) simp_all

lemma granularityOfLeaves_asked:
  assumes "askAll chat (map (getEstimateEffortPrompt js) leaves) w = (Inr rs, w1)"
    and "leaves \<noteq> []"
  shows "granularityOfLeaves leaves chat js idealRange alpha w =
     (Inr \<lparr>score = sum_list (map (leafScore js idealRange alpha) rs) / real (length rs),
           details = Some (EffortDetails (length leaves)
                      (range_min idealRange, range_max idealRange)
                      (map2 (effortEntry js idealRange alpha) leaves rs))\<rparr>, w1)"
  using assms
  by (simp add: granularityOfLeaves_def granularityLoop_askAll foldl_plus_sum_list')

lemma granularityOfLeaves_failed:
  assumes "askAll chat (map (getEstimateEffortPrompt js) leaves) w = (Inl err, w1)"
  shows "granularityOfLeaves leaves chat js idealRange alpha w = (Inl err, w1)"
proof -
  from assms have "leaves \<noteq> []" by auto
  with assms show ?thesis
    by (simp add: granularityOfLeaves_def granularityLoop_askAll)
qed

lemma executabilityOfLeaves_asked:
  assumes "askAll chat (map (getJudgeExecutabilityPrompt js) leaves) w = (Inr rs, w1)"
    and "leaves \<noteq> []"
  shows "executabilityOfLeaves leaves chat js w =
     (Inr \<lparr>score = sum_list (map (\<lambda>r. snd (snd r)) (map2 (ratingEntry js) leaves rs))
                    / real (length rs),
           details = Some (RatingDetails (length leaves) (map2 (ratingEntry js) leaves rs))\<rparr>, w1)"
proof -
  from askAll_length [OF assms(1)] have "length rs = length leaves" by simp
  with assms show ?thesis
    by (simp add: executabilityOfLeaves_def executabilityLoop_askAll
        foldl_plus_sum_list [of "\<lambda>r. snd (snd r)"])
qed

lemma executabilityOfLeaves_failed:
  assumes "askAll chat (map (getJudgeExecutabilityPrompt js) leaves) w = (Inl err, w1)"
  shows "executabilityOfLeaves leaves chat js w = (Inl err, w1)"
proof -
  from assms have "leaves \<noteq> []" by auto
  with assms show ?thesis
    by (simp add: executabilityOfLeaves_def executabilityLoop_askAll)
qed


section \<open>Properties of the semantic metrics\<close>

lemma computeRedundancy_single:
  "length (preorder tree) < 2 \<Longrightarrow>
   computeRedundancy tree embedClient th w =
     (Inr \<lparr>score = 1, details = Some (PairDetails 0 0 None [])\<rparr>, w)"
  by (simp add: computeRedundancy_def getAllNodesArray_preorder)


lemma sameLengths_iff:
  "sameLengths vecs \<longleftrightarrow>
     \<not> (\<exists>i j. i < j \<and> j < length vecs \<and> length (vecs ! i) \<noteq> length (vecs ! j))"
  by (auto simp: sameLengths_def list_all_iff set_allPairs)


lemma nodeText_mk: "nodeText (mk ''root'' cs ds) = ''root''" "nodeText (mk ''c1'' cs ds) = ''c1''"
  by (simp_all add: nodeText_def mk_def trim_def isSpace_def)




text \<open>
  Claim C8: cosine similarity fails if and only if the two vectors have different
  lengths; for equal lengths its value is the quotient of the sums over all components.
  When the embeddings of a tree with at least two nodes are all returned, redundancy fails
  with the length mismatch, in the state reached after the embeddings, if and only if two
  of the returned vectors differ in length, and returns a score otherwise. A tree with
  fewer than two nodes compares no pair and does not fail.
\<close>

theorem cosine_length_mismatch:
  fixes embedClient :: "'w EmbeddingClient"
  shows
  "((\<exists>err. cosineSimilarity a b = Inl err) \<longleftrightarrow> length a \<noteq> length b) \<and>
   (length a \<noteq> length b \<longrightarrow> cosineSimilarity a b = Inl VectorsLengthMismatch) \<and>
   (length a = length b \<longrightarrow>
      cosineSimilarity a b =
        Inr (quotient (\<Sum>i<length a. a ! i * b ! i)
               (sqrt (\<Sum>i<length a. a ! i * a ! i) * sqrt (\<Sum>i<length b. b ! i * b ! i)))) \<and>
   (length (getAllNodesArray tree) < 2 \<longrightarrow>
      (\<exists>r. computeRedundancy tree embedClient th w = (Inr r, w))) \<and>
   (\<forall>vecs w1.
      2 \<le> length (getAllNodesArray tree) \<and>
      embedNodes embedClient (getAllNodesArray tree) [] w = (Inr vecs, w1) \<longrightarrow>
      ((\<exists>err w2. computeRedundancy tree embedClient th w = (Inl err, w2)) \<longleftrightarrow>
         (\<exists>i j. i < j \<and> j < length vecs \<and> length (vecs ! i) \<noteq> length (vecs ! j))) \<and>
      ((\<exists>i j. i < j \<and> j < length vecs \<and> length (vecs ! i) \<noteq> length (vecs ! j)) \<longrightarrow>
         computeRedundancy tree embedClient th w = (Inl VectorsLengthMismatch, w1)) \<and>
      (\<not> (\<exists>i j. i < j \<and> j < length vecs \<and> length (vecs ! i) \<noteq> length (vecs ! j)) \<longrightarrow>
         (\<exists>r. computeRedundancy tree embedClient th w = (Inr r, w1))))"
proof -
  have c: "(\<exists>err. cosineSimilarity a b = Inl err) \<longleftrightarrow> length a \<noteq> length b"
    "length a \<noteq> length b \<longrightarrow> cosineSimilarity a b = Inl VectorsLengthMismatch"
    "length a = length b \<longrightarrow>
      cosineSimilarity a b =
        Inr (quotient (\<Sum>i<length a. a ! i * b ! i)
               (sqrt (\<Sum>i<length a. a ! i * a ! i) * sqrt (\<Sum>i<length b. b ! i * b ! i)))"
    by (simp_all add: cosineSimilarity_cosine cosine_def)
  have s: "\<exists>r. computeRedundancy tree embedClient th w = (Inr r, w)"
    if "length (getAllNodesArray tree) < 2"
    using that computeRedundancy_single [of tree embedClient th w]
    by (simp add: getAllNodesArray_preorder)
  have e: "((\<exists>err w2. computeRedundancy tree embedClient th w = (Inl err, w2)) \<longleftrightarrow>
         (\<exists>i j. i < j \<and> j < length vecs \<and> length (vecs ! i) \<noteq> length (vecs ! j))) \<and>
      ((\<exists>i j. i < j \<and> j < length vecs \<and> length (vecs ! i) \<noteq> length (vecs ! j)) \<longrightarrow>
         computeRedundancy tree embedClient th w = (Inl VectorsLengthMismatch, w1)) \<and>
      (\<not> (\<exists>i j. i < j \<and> j < length vecs \<and> length (vecs ! i) \<noteq> length (vecs ! j)) \<longrightarrow>
         (\<exists>r. computeRedundancy tree embedClient th w = (Inr r, w1)))"
    if "2 \<le> length (getAllNodesArray tree)"
      "embedNodes embedClient (getAllNodesArray tree) [] w = (Inr vecs, w1)" for vecs w1
  proof -
    have iff: "(\<exists>i j. i < j \<and> j < length vecs \<and> length (vecs ! i) \<noteq> length (vecs ! j))
        \<longleftrightarrow> \<not> sameLengths vecs"
      by (auto simp: sameLengths_iff)
    from that have r: "computeRedundancy tree embedClient th w =
       (if sameLengths vecs
        then (Inr \<lparr>score = 1 - real (length (redundantPairsOf vecs th))
                        / real (length (allPairs (length vecs))),
                 details = Some (PairDetails (length (redundantPairsOf vecs th))
                    (length (allPairs (length vecs))) (Some th) (take 5 (redundantPairsOf vecs th)))\<rparr>, w1)
        else (Inl VectorsLengthMismatch, w1))"
      by (intro computeRedundancy_embedded) (simp_all add: getAllNodesArray_preorder)
    show ?thesis unfolding iff r by (cases "sameLengths vecs") simp_all
  qed
  from c s e show ?thesis by blast
qed

theorem cosine_length_mismatch_witness:
  "length [1 :: real] \<noteq> length [1, 1 :: real] \<and>
   cosineSimilarity [1] [1, 1] = Inl VectorsLengthMismatch \<and>
   2 \<le> length (getAllNodesArray pureTree) \<and>
   embedNodes growingEmbedding (getAllNodesArray pureTree) [] 0 = (Inr [[1], [1, 1]], 2) \<and>
   (0 :: nat) < 1 \<and> (1 :: nat) < length [[1], [1, 1 :: real]] \<and>
   length ([[1], [1, 1 :: real]] ! 0) \<noteq> length ([[1], [1, 1 :: real]] ! 1) \<and>
   computeRedundancy pureTree growingEmbedding DEFAULT_THRESHOLD 0 = (Inl VectorsLengthMismatch, 2)"
proof -
  have n: "getAllNodesArray pureTree = [mk ''root'' [mk ''c1'' [] None] None, mk ''c1'' [] None]"
    by (simp add: getAllNodesArray_def pureTree_def mk_def)
  have e: "embedNodes growingEmbedding (getAllNodesArray pureTree) [] 0 = (Inr [[1], [1, 1]], 2)"
    by (simp add: n growingEmbedding_def numeral_2_eq_2)
  have d: "\<exists>i j. i < j \<and> j < length [[1], [1, 1 :: real]] \<and>
      length ([[1], [1, 1 :: real]] ! i) \<noteq> length ([[1], [1, 1 :: real]] ! j)"
    by (intro exI [of _ 0] exI [of _ 1]) simp
  have len: "2 \<le> length (getAllNodesArray pureTree)" by (simp add: n)
  have l: "length [1 :: real] \<noteq> length [1, 1 :: real]" by simp
  note cm = cosine_length_mismatch [of "[1]" "[1, 1]" pureTree growingEmbedding DEFAULT_THRESHOLD 0]
  from cm [THEN conjunct2, THEN conjunct1] l
  have c: "cosineSimilarity [1] [1, 1] = Inl VectorsLengthMismatch" by (rule mp)
  note step = cm [THEN conjunct2, THEN conjunct2, THEN conjunct2, THEN conjunct2, rule_format,
      of "[[1], [1, 1]]" 2, OF conjI [OF len e], THEN conjunct2, THEN conjunct1]
  from step d
  have r: "computeRedundancy pureTree growingEmbedding DEFAULT_THRESHOLD 0 = (Inl VectorsLengthMismatch, 2)"
    by (rule mp)
  from len e l c r show ?thesis by simp

qed

lemma computeGranularity_asked:
  assumes "askAll chat (map (getEstimateEffortPrompt js) (getLeafNodes tree)) w = (Inr rs, w1)"
  shows "computeGranularity tree chat js idealRange alpha w =
     (Inr \<lparr>score = sum_list (map (leafScore js idealRange alpha) rs) / real (length rs),
           details = Some (EffortDetails (length (getLeafNodes tree))
                      (range_min idealRange, range_max idealRange)
                      (map2 (effortEntry js idealRange alpha) (getLeafNodes tree) rs))\<rparr>, w1)"
  unfolding computeGranularity_def
  using assms getLeafNodes_nonempty by (rule granularityOfLeaves_asked)

lemma computeGranularity_failed:
  assumes "computeGranularity tree chat js idealRange alpha w = (Inl err, w1)"
  shows "askAll chat (map (getEstimateEffortPrompt js) (getLeafNodes tree)) w = (Inl err, w1)"
proof (cases "askAll chat (map (getEstimateEffortPrompt js) (getLeafNodes tree)) w")
  case (Pair res w2)
  show ?thesis
  proof (cases res)
    case (Inl e)
    with Pair granularityOfLeaves_failed [of chat js "getLeafNodes tree" w e w2 idealRange alpha] assms
    show ?thesis by (simp add: computeGranularity_def)
  next
    case (Inr rs)
    with Pair computeGranularity_asked [of chat js tree w rs w2 idealRange alpha] assms
    show ?thesis by simp
  qed
qed

lemma computeExecutability_asked:
  assumes "askAll chat (map (getJudgeExecutabilityPrompt js) (getLeafNodes tree)) w = (Inr rs, w1)"
  shows "computeExecutability tree chat js w =
     (Inr \<lparr>score = sum_list (map (\<lambda>r. snd (snd r)) (map2 (ratingEntry js) (getLeafNodes tree) rs))
                    / real (length rs),
           details = Some (RatingDetails (length (getLeafNodes tree))
                      (map2 (ratingEntry js) (getLeafNodes tree) rs))\<rparr>, w1)"
  unfolding computeExecutability_def
  using assms getLeafNodes_nonempty by (rule executabilityOfLeaves_asked)

lemma computeExecutability_failed:
  assumes "computeExecutability tree chat js w = (Inl err, w1)"
  shows "askAll chat (map (getJudgeExecutabilityPrompt js) (getLeafNodes tree)) w = (Inl err, w1)"
proof (cases "askAll chat (map (getJudgeExecutabilityPrompt js) (getLeafNodes tree)) w")
  case (Pair res w2)
  show ?thesis
  proof (cases res)
    case (Inl e)
    with Pair executabilityOfLeaves_failed [of chat js "getLeafNodes tree" w e w2] assms
    show ?thesis by (simp add: computeExecutability_def)
  next
    case (Inr rs)
    with Pair computeExecutability_asked [of chat js tree w rs w2] assms
    show ?thesis by simp
  qed
qed



lemma trim_digits: "trim ''20'' = ''20''" "trim ''hours'' = ''hours''" "trim ''4'' = ''4''"
  "trim ''9'' = ''9''"
  by (simp_all add: trim_def isSpace_def)

lemma getLeafNodes_pureTree: "getLeafNodes pureTree = [mk ''c1'' [] None]"
  by (simp add: getLeafNodes_def pureTree_def mk_def)


text \<open>
  Claim C9: when every chat call of the metric returns a response, granularity and
  executability return a result, whatever the responses are. A leaf whose effort response
  does not parse gets effort \<open>-1\<close> and score 0.5; a leaf whose rating does not parse or
  lies outside 1..5 gets rating 3 and normalized score 0.5. Either metric fails only when
  a chat call fails, and then with the failure of that call.
\<close>

theorem unparseable_judgment_not_fatal:
  fixes chat :: "'w LLMClient"
  shows
  "(\<forall>rs w1.
      askAll chat (map (getEstimateEffortPrompt js) (getLeafNodes tree)) w = (Inr rs, w1) \<longrightarrow>
      (\<exists>r. computeGranularity tree chat js idealRange alpha w = (Inr r, w1) \<and>
           score r = sum_list (map (leafScore js idealRange alpha) rs) / real (length rs) \<and>
           details r = Some (EffortDetails (length (getLeafNodes tree))
                         (range_min idealRange, range_max idealRange)
                         (map2 (effortEntry js idealRange alpha) (getLeafNodes tree) rs)))) \<and>
   (\<forall>leaf response. parseFloat js (trim response) = None \<longrightarrow>
      leafScore js idealRange alpha response = 1 / 2 \<and>
      effortEntry js idealRange alpha leaf response = (title leaf, - 1, 1 / 2)) \<and>
   (\<forall>err w1. computeGranularity tree chat js idealRange alpha w = (Inl err, w1) \<longrightarrow>
      askAll chat (map (getEstimateEffortPrompt js) (getLeafNodes tree)) w = (Inl err, w1)) \<and>
   (\<forall>rs w1.
      askAll chat (map (getJudgeExecutabilityPrompt js) (getLeafNodes tree)) w = (Inr rs, w1) \<longrightarrow>
      (\<exists>r. computeExecutability tree chat js w = (Inr r, w1) \<and>
           score r = sum_list (map (\<lambda>r. snd (snd r))
                        (map2 (ratingEntry js) (getLeafNodes tree) rs)) / real (length rs) \<and>
           details r = Some (RatingDetails (length (getLeafNodes tree))
                         (map2 (ratingEntry js) (getLeafNodes tree) rs)))) \<and>
   (\<forall>leaf response.
      parseInt js (trim response) = None \<or>
      (\<exists>k. parseInt js (trim response) = Some k \<and> (k < 1 \<or> 5 < k)) \<longrightarrow>
      ratingEntry js leaf response = (title leaf, 3, 1 / 2)) \<and>
   (\<forall>err w1. computeExecutability tree chat js w = (Inl err, w1) \<longrightarrow>
      askAll chat (map (getJudgeExecutabilityPrompt js) (getLeafNodes tree)) w = (Inl err, w1))"
proof -
  have a: "\<forall>rs w1.
      askAll chat (map (getEstimateEffortPrompt js) (getLeafNodes tree)) w = (Inr rs, w1) \<longrightarrow>
      (\<exists>r. computeGranularity tree chat js idealRange alpha w = (Inr r, w1) \<and>
           score r = sum_list (map (leafScore js idealRange alpha) rs) / real (length rs) \<and>
           details r = Some (EffortDetails (length (getLeafNodes tree))
                         (range_min idealRange, range_max idealRange)
                         (map2 (effortEntry js idealRange alpha) (getLeafNodes tree) rs)))"
    by (simp add: computeGranularity_asked)
  have b: "\<forall>leaf response. parseFloat js (trim response) = None \<longrightarrow>
      leafScore js idealRange alpha response = 1 / 2 \<and>
      effortEntry js idealRange alpha leaf response = (title leaf, - 1, 1 / 2)"
    by (simp add: leafScore_def effortEntry_def)
  have c: "\<forall>err w1. computeGranularity tree chat js idealRange alpha w = (Inl err, w1) \<longrightarrow>
      askAll chat (map (getEstimateEffortPrompt js) (getLeafNodes tree)) w = (Inl err, w1)"
    by (intro allI impI) (rule computeGranularity_failed)
  have d: "\<forall>rs w1.
      askAll chat (map (getJudgeExecutabilityPrompt js) (getLeafNodes tree)) w = (Inr rs, w1) \<longrightarrow>
      (\<exists>r. computeExecutability tree chat js w = (Inr r, w1) \<and>
           score r = sum_list (map (\<lambda>r. snd (snd r))
                        (map2 (ratingEntry js) (getLeafNodes tree) rs)) / real (length rs) \<and>
           details r = Some (RatingDetails (length (getLeafNodes tree))
                         (map2 (ratingEntry js) (getLeafNodes tree) rs)))"
    by (simp add: computeExecutability_asked)
  have e: "\<forall>leaf response.
      parseInt js (trim response) = None \<or>
      (\<exists>k. parseInt js (trim response) = Some k \<and> (k < 1 \<or> 5 < k)) \<longrightarrow>
      ratingEntry js leaf response = (title leaf, 3, 1 / 2)"
    by (auto simp: ratingEntry_def)
  have f: "\<forall>err w1. computeExecutability tree chat js w = (Inl err, w1) \<longrightarrow>
      askAll chat (map (getJudgeExecutabilityPrompt js) (getLeafNodes tree)) w = (Inl err, w1)"
    by (intro allI impI) (rule computeExecutability_failed)
  from a b c d e f show ?thesis by (intro conjI)
qed

theorem unparseable_judgment_not_fatal_witness:
  "askAll (answering ''hours'') (map (getEstimateEffortPrompt examplePlatform) (getLeafNodes pureTree)) 0
     = (Inr [''hours''], 1) \<and>
   parseFloat examplePlatform (trim ''hours'') = None \<and>
   (\<exists>r. computeGranularity pureTree (answering ''hours'') examplePlatform DEFAULT_RANGE DEFAULT_ALPHA 0
           = (Inr r, 1) \<and> score r = 1 / 2) \<and>
   askAll (answering ''9'') (map (getJudgeExecutabilityPrompt examplePlatform) (getLeafNodes pureTree)) 0
     = (Inr [''9''], 1) \<and>
   parseInt examplePlatform (trim ''9'') = Some 9 \<and>
   (\<exists>r. computeExecutability pureTree (answering ''9'') examplePlatform 0 = (Inr r, 1) \<and>
        score r = 1 / 2 \<and>
        details r = Some (RatingDetails 1 [(''c1'', 3, 1 / 2)]))"
proof -
  note t = unparseable_judgment_not_fatal [of "answering ''hours''" examplePlatform pureTree 0
      DEFAULT_RANGE DEFAULT_ALPHA]
  note u = unparseable_judgment_not_fatal [of "answering ''9''" examplePlatform pureTree 0
      DEFAULT_RANGE DEFAULT_ALPHA]
  have a: "askAll (answering ''hours'')
      (map (getEstimateEffortPrompt examplePlatform) (getLeafNodes pureTree)) 0 = (Inr [''hours''], 1)"
    by (simp add: getLeafNodes_pureTree answering_def)
  have p: "parseFloat examplePlatform (trim ''hours'') = None"
    by (simp add: examplePlatform_def trim_digits)
  from t [THEN conjunct2, THEN conjunct1, rule_format, OF p]
  have ls: "leafScore examplePlatform DEFAULT_RANGE DEFAULT_ALPHA ''hours'' = 1 / 2" by simp
  from t [THEN conjunct1, rule_format, OF a]
  have g: "\<exists>r. computeGranularity pureTree (answering ''hours'') examplePlatform DEFAULT_RANGE
      DEFAULT_ALPHA 0 = (Inr r, 1) \<and> score r = 1 / 2"
    by (auto simp: ls)
  have b: "askAll (answering ''9'')
      (map (getJudgeExecutabilityPrompt examplePlatform) (getLeafNodes pureTree)) 0 = (Inr [''9''], 1)"
    by (simp add: getLeafNodes_pureTree answering_def)
  have q: "parseInt examplePlatform (trim ''9'') = Some 9"
    by (simp add: examplePlatform_def trim_digits)
  then have "parseInt examplePlatform (trim ''9'') = None \<or>
      (\<exists>k. parseInt examplePlatform (trim ''9'') = Some k \<and> (k < 1 \<or> 5 < k))" by simp
  from u [THEN conjunct2, THEN conjunct2, THEN conjunct2, THEN conjunct2, THEN conjunct1,
      rule_format, OF this, of "mk ''c1'' [] None"]
  have re: "ratingEntry examplePlatform (mk ''c1'' [] None) ''9'' = (''c1'', 3, 1 / 2)"
    by (simp add: mk_def)
  from u [THEN conjunct2, THEN conjunct2, THEN conjunct2, THEN conjunct1, rule_format, OF b]
  have x: "\<exists>r. computeExecutability pureTree (answering ''9'') examplePlatform 0 = (Inr r, 1) \<and>
        score r = 1 / 2 \<and> details r = Some (RatingDetails 1 [(''c1'', 3, 1 / 2)])"
    by (auto simp: getLeafNodes_pureTree re)
  from a p g b q x show ?thesis by (intro conjI)
qed

section \<open>Aggregation\<close>

lemma computeTDQ_result:
  assumes "computeTDQ tree chat embedClient ws js w = (Inr res, w')"
  shows "\<exists>w1 w2.
     computeRedundancy tree embedClient DEFAULT_THRESHOLD w = (Inr (redundancy (breakdown res)), w1) \<and>
     computeGranularity tree chat js DEFAULT_RANGE DEFAULT_ALPHA w1
       = (Inr (granularity (breakdown res)), w2) \<and>
     computeExecutability tree chat js w2 = (Inr (executability (breakdown res)), w') \<and>
     acyclicity (breakdown res) = computeAcyclicity tree \<and>
     hierarchy (breakdown res) = computeHierarchyConsistency tree \<and>
     balance (breakdown res) = computeHierarchyBalance tree \<and>
     res = tdqResult ws (breakdown res)"
  using assms
  by (auto simp: computeTDQ_def Let_def tdqResult_def split: prod.splits sum.splits)

section \<open>Collaborators that ignore the state\<close>

lemma embedNodes_deterministic:
  assumes "deterministicEmbedding embedClient"
  shows "fst (embedNodes embedClient nodes acc w) = fst (embedNodes embedClient nodes acc w')"
proof (induction nodes arbitrary: acc w w')
  case Nil
  then show ?case by simp
next
  case (Cons node nodes)
  obtain a w1 where a: "embedClient (nodeText node) w = (a, w1)"
    by (cases "embedClient (nodeText node) w")
  obtain b w1' where b: "embedClient (nodeText node) w' = (b, w1')"
    by (cases "embedClient (nodeText node) w'")
  from assms a b have "a = b"
    unfolding deterministicEmbedding_def by (metis fst_conv)
  with a have a': "embedClient (nodeText node) w = (b, w1)" by simp
  show ?case using a' b Cons.IH [of _ w1 w1'] by (cases b) simp_all
qed

lemma computeRedundancy_deterministic:
  assumes "deterministicEmbedding embedClient"
  shows "fst (computeRedundancy tree embedClient th w) = fst (computeRedundancy tree embedClient th w')"
proof -
  let ?n = "getAllNodesArray tree"
  obtain a w1 where a: "embedNodes embedClient ?n [] w = (a, w1)"
    by (cases "embedNodes embedClient ?n [] w")
  obtain b w1' where b: "embedNodes embedClient ?n [] w' = (b, w1')"
    by (cases "embedNodes embedClient ?n [] w'")
  from embedNodes_deterministic [OF assms, of ?n "[]" w w'] a b have "a = b" by simp
  with a have a': "embedNodes embedClient ?n [] w = (b, w1)" by simp
  show ?thesis using a' b
    by (cases b) (auto simp: computeRedundancy_def Let_def split: sum.splits prod.splits)
qed

lemma askAll_deterministic:
  assumes "deterministicChat chat"
  shows "fst (askAll chat prompts w) = fst (askAll chat prompts w')"
proof (induction prompts arbitrary: w w')
  case Nil
  then show ?case by simp
next
  case (Cons p ps)
  obtain a w1 where a: "chat (userMessage p) w = (a, w1)" by (cases "chat (userMessage p) w")
  obtain b w1' where b: "chat (userMessage p) w' = (b, w1')" by (cases "chat (userMessage p) w'")
  from assms a b have "a = b" unfolding deterministicChat_def by (metis fst_conv)
  with a have a': "chat (userMessage p) w = (b, w1)" by simp
  obtain c w2 where c: "askAll chat ps w1 = (c, w2)" by (cases "askAll chat ps w1")
  obtain c' w2' where c': "askAll chat ps w1' = (c', w2')" by (cases "askAll chat ps w1'")
  from Cons.IH [of w1 w1'] c c' have "c' = c" by simp
  with c' have c'': "askAll chat ps w1' = (c, w2')" by simp
  show ?case using a' b c c'' by (cases b; cases c) simp_all
qed

lemma computeGranularity_deterministic:
  assumes "deterministicChat chat"
  shows "fst (computeGranularity tree chat js idealRange alpha w)
       = fst (computeGranularity tree chat js idealRange alpha w')"
proof -
  let ?p = "map (getEstimateEffortPrompt js) (getLeafNodes tree)"
  obtain c w2 where c: "askAll chat ?p w = (c, w2)" by (cases "askAll chat ?p w")
  obtain c' w2' where c': "askAll chat ?p w' = (c', w2')" by (cases "askAll chat ?p w'")
  from askAll_deterministic [OF assms, of ?p w w'] c c' have "c' = c" by simp
  with c' have c'': "askAll chat ?p w' = (c, w2')" by simp
  show ?thesis using c c''
    by (cases c) (simp_all add: computeGranularity_def granularityOfLeaves_def
        granularityLoop_askAll)
qed

lemma computeExecutability_deterministic:
  assumes "deterministicChat chat"
  shows "fst (computeExecutability tree chat js w) = fst (computeExecutability tree chat js w')"
proof -
  let ?p = "map (getJudgeExecutabilityPrompt js) (getLeafNodes tree)"
  obtain c w2 where c: "askAll chat ?p w = (c, w2)" by (cases "askAll chat ?p w")
  obtain c' w2' where c': "askAll chat ?p w' = (c', w2')" by (cases "askAll chat ?p w'")
  from askAll_deterministic [OF assms, of ?p w w'] c c' have "c' = c" by simp
  with c' have c'': "askAll chat ?p w' = (c, w2')" by simp
  show ?thesis using c c''
    by (cases c) (simp_all add: computeExecutability_def executabilityOfLeaves_def
        executabilityLoop_askAll)
qed

lemma computeTDQ_deterministic:
  assumes "deterministicChat chat" and "deterministicEmbedding embedClient"
  shows "fst (computeTDQ tree chat embedClient ws js w) = fst (computeTDQ tree chat embedClient ws js w')"
proof -
  obtain a w1 where a: "computeRedundancy tree embedClient DEFAULT_THRESHOLD w = (a, w1)"
    by (cases "computeRedundancy tree embedClient DEFAULT_THRESHOLD w")
  obtain a' w1' where a': "computeRedundancy tree embedClient DEFAULT_THRESHOLD w' = (a', w1')"
    by (cases "computeRedundancy tree embedClient DEFAULT_THRESHOLD w'")
  obtain b w2 where b: "computeGranularity tree chat js DEFAULT_RANGE DEFAULT_ALPHA w1 = (b, w2)"
    by (cases "computeGranularity tree chat js DEFAULT_RANGE DEFAULT_ALPHA w1")
  obtain b' w2' where b': "computeGranularity tree chat js DEFAULT_RANGE DEFAULT_ALPHA w1' = (b', w2')"
    by (cases "computeGranularity tree chat js DEFAULT_RANGE DEFAULT_ALPHA w1'")
  obtain c w3 where c: "computeExecutability tree chat js w2 = (c, w3)"
    by (cases "computeExecutability tree chat js w2")
  obtain c' w3' where c': "computeExecutability tree chat js w2' = (c', w3')"
    by (cases "computeExecutability tree chat js w2'")
  from computeRedundancy_deterministic [OF assms(2), of tree DEFAULT_THRESHOLD w w'] a a'
  have 1: "a' = a" by simp
  from computeGranularity_deterministic [OF assms(1), of tree js DEFAULT_RANGE DEFAULT_ALPHA w1 w1'] b b'
  have 2: "b' = b" by simp
  from computeExecutability_deterministic [OF assms(1), of tree js w2 w2'] c c'
  have 3: "c' = c" by simp
  show ?thesis
    using a a' b b' c c' unfolding 1 2 3
    by (cases a; cases b; cases c) (simp_all add: computeTDQ_def Let_def)
qed

section \<open>Example runs\<close>

lemma example_structural:
  "computeAcyclicity singleTask = \<lparr>score = 1, details = Some (CycleDetails False)\<rparr>"
  "computeHierarchyConsistency singleTask = \<lparr>score = 1, details = None\<rparr>"
  "computeHierarchyBalance singleTask = \<lparr>score = 1, details = Some (VarianceDetails 0 None)\<rparr>"
proof -
  have "\<not> hasCycle (dfsRoots (buildGraph (getAllNodes singleTask)) (keys (getAllNodes singleTask))
      initialDfsState)"
    by code_simp
  then show "computeAcyclicity singleTask = \<lparr>score = 1, details = Some (CycleDetails False)\<rparr>"
    by (simp add: computeAcyclicity_def Let_def)
  have "edgeCounts singleTask = (0, 0)" by code_simp
  then show "computeHierarchyConsistency singleTask = \<lparr>score = 1, details = None\<rparr>"
    by (simp add: computeHierarchyConsistency_def)
  have "childCounts singleTask = []" by code_simp
  then show "computeHierarchyBalance singleTask
      = \<lparr>score = 1, details = Some (VarianceDetails 0 None)\<rparr>"
    by (simp add: computeHierarchyBalance_def)
qed

lemma example_leaves: "getLeafNodes singleTask = [singleTask]" "getAllNodesArray singleTask = [singleTask]"
  "title singleTask = ''root''"
  by (simp_all add: getLeafNodes_def getAllNodesArray_def singleTask_def mk_def)

lemma example_computeTDQ:
  "computeTDQ singleTask (answering ''hours'') constantEmbedding DEFAULT_WEIGHTS examplePlatform w
     = (Inr lowEvaluation, Suc (Suc w))"
  by (simp add: computeTDQ_def example_structural computeRedundancy_def example_leaves
      computeGranularity_def granularityOfLeaves_def computeExecutability_def
      executabilityOfLeaves_def answering_def examplePlatform_def trim_digits ratingEntry_def
      lowEvaluation_def DEFAULT_RANGE_def)

lemma lowEvaluation_score:
  "tdqScore lowEvaluation = 27 / 40"
  "issues lowEvaluation = [LowGranularity (1 / 2), LowExecutability (1 / 2)]"
  by (simp_all add: lowEvaluation_def tdqResult_def weightedScore_def findIssues_def
      DEFAULT_WEIGHTS_def)

lemma example_generate:
  "generateTaskTree userInput (answering ''hours'') examplePlatform w = (Inr singleTask, Suc w)"
  by (simp add: generateTaskTree_def answering_def examplePlatform_def singleTask_def)

lemma example_refine:
  "refineTaskTree t r (answering ''hours'') examplePlatform w = (Inr singleTask, Suc w)"
  by (simp add: refineTaskTree_def answering_def examplePlatform_def singleTask_def Let_def)

lemma example_deterministic:
  "deterministicChat (answering response)" "deterministicEmbedding constantEmbedding"
  by (simp_all add: deterministicChat_def deterministicEmbedding_def answering_def
      constantEmbedding_def)

section \<open>Properties of the aggregation\<close>

text \<open>
  Claim C3: the composite score is the weighted sum of the six metric scores, whatever
  the six results are; with the default weights the factors are 0.10, 0.15, 0.10, 0.20,
  0.10 and 0.25. The issue list holds the cyclic dependency issue if and only if the
  acyclicity score is exactly 0, and a warning for hierarchy, balance, granularity,
  redundancy and executability if and only if the score is below 0.7, 0.5, 0.6, 0.8 and
  0.6; a warning carries the score of its metric. The score is a function of the weights
  and the six scores; the issues do not enter it. A result of \<open>computeTDQ\<close> is
  assembled in this way from the six metrics of the tree.
\<close>

theorem tdq_weighted_sum_and_issues:
  fixes chat :: "'w LLMClient"
  shows
  "tdqScore (tdqResult ws b) =
     acyclicityW ws * score (acyclicity b) + hierarchyW ws * score (hierarchy b) +
     balanceW ws * score (balance b) + granularityW ws * score (granularity b) +
     redundancyW ws * score (redundancy b) + executabilityW ws * score (executability b) \<and>
   tdqScore (tdqResult DEFAULT_WEIGHTS b) =
     10 / 100 * score (acyclicity b) + 15 / 100 * score (hierarchy b) +
     10 / 100 * score (balance b) + 20 / 100 * score (granularity b) +
     10 / 100 * score (redundancy b) + 25 / 100 * score (executability b) \<and>
   (CyclicDependency \<in> set (issues (tdqResult ws b)) \<longleftrightarrow> score (acyclicity b) = 0) \<and>
   (\<forall>x. LowHierarchy x \<in> set (issues (tdqResult ws b)) \<longleftrightarrow>
      score (hierarchy b) < 7 / 10 \<and> x = score (hierarchy b)) \<and>
   (\<forall>x. LowBalance x \<in> set (issues (tdqResult ws b)) \<longleftrightarrow>
      score (balance b) < 5 / 10 \<and> x = score (balance b)) \<and>
   (\<forall>x. LowGranularity x \<in> set (issues (tdqResult ws b)) \<longleftrightarrow>
      score (granularity b) < 6 / 10 \<and> x = score (granularity b)) \<and>
   (\<forall>x. LowRedundancy x \<in> set (issues (tdqResult ws b)) \<longleftrightarrow>
      score (redundancy b) < 8 / 10 \<and> x = score (redundancy b)) \<and>
   (\<forall>x. LowExecutability x \<in> set (issues (tdqResult ws b)) \<longleftrightarrow>
      score (executability b) < 6 / 10 \<and> x = score (executability b)) \<and>
   (\<forall>res w'. computeTDQ tree chat embedClient ws js w = (Inr res, w') \<longrightarrow>
      res = tdqResult ws (breakdown res) \<and>
      acyclicity (breakdown res) = computeAcyclicity tree \<and>
      hierarchy (breakdown res) = computeHierarchyConsistency tree \<and>
      balance (breakdown res) = computeHierarchyBalance tree \<and>
      (\<exists>w1 w2.
         computeRedundancy tree embedClient DEFAULT_THRESHOLD w
           = (Inr (redundancy (breakdown res)), w1) \<and>
         computeGranularity tree chat js DEFAULT_RANGE DEFAULT_ALPHA w1
           = (Inr (granularity (breakdown res)), w2) \<and>
         computeExecutability tree chat js w2 = (Inr (executability (breakdown res)), w')))"
proof -
  have s: "tdqScore (tdqResult ws b) =
     acyclicityW ws * score (acyclicity b) + hierarchyW ws * score (hierarchy b) +
     balanceW ws * score (balance b) + granularityW ws * score (granularity b) +
     redundancyW ws * score (redundancy b) + executabilityW ws * score (executability b)"
    "tdqScore (tdqResult DEFAULT_WEIGHTS b) =
     10 / 100 * score (acyclicity b) + 15 / 100 * score (hierarchy b) +
     10 / 100 * score (balance b) + 20 / 100 * score (granularity b) +
     10 / 100 * score (redundancy b) + 25 / 100 * score (executability b)"
    by (simp_all add: tdqResult_def weightedScore_def DEFAULT_WEIGHTS_def)
  have i: "CyclicDependency \<in> set (issues (tdqResult ws b)) \<longleftrightarrow> score (acyclicity b) = 0"
    "\<forall>x. LowHierarchy x \<in> set (issues (tdqResult ws b)) \<longleftrightarrow>
      score (hierarchy b) < 7 / 10 \<and> x = score (hierarchy b)"
    "\<forall>x. LowBalance x \<in> set (issues (tdqResult ws b)) \<longleftrightarrow>
      score (balance b) < 5 / 10 \<and> x = score (balance b)"
    "\<forall>x. LowGranularity x \<in> set (issues (tdqResult ws b)) \<longleftrightarrow>
      score (granularity b) < 6 / 10 \<and> x = score (granularity b)"
    "\<forall>x. LowRedundancy x \<in> set (issues (tdqResult ws b)) \<longleftrightarrow>
      score (redundancy b) < 8 / 10 \<and> x = score (redundancy b)"
    "\<forall>x. LowExecutability x \<in> set (issues (tdqResult ws b)) \<longleftrightarrow>
      score (executability b) < 6 / 10 \<and> x = score (executability b)"
    by (auto simp: tdqResult_def findIssues_def)
  have c: "\<forall>res w'. computeTDQ tree chat embedClient ws js w = (Inr res, w') \<longrightarrow>
      res = tdqResult ws (breakdown res) \<and>
      acyclicity (breakdown res) = computeAcyclicity tree \<and>
      hierarchy (breakdown res) = computeHierarchyConsistency tree \<and>
      balance (breakdown res) = computeHierarchyBalance tree \<and>
      (\<exists>w1 w2.
         computeRedundancy tree embedClient DEFAULT_THRESHOLD w
           = (Inr (redundancy (breakdown res)), w1) \<and>
         computeGranularity tree chat js DEFAULT_RANGE DEFAULT_ALPHA w1
           = (Inr (granularity (breakdown res)), w2) \<and>
         computeExecutability tree chat js w2 = (Inr (executability (breakdown res)), w'))"
  proof (intro allI impI)
    fix res w'
    assume "computeTDQ tree chat embedClient ws js w = (Inr res, w')"
    from computeTDQ_result [OF this] show "res = tdqResult ws (breakdown res) \<and>
      acyclicity (breakdown res) = computeAcyclicity tree \<and>
      hierarchy (breakdown res) = computeHierarchyConsistency tree \<and>
      balance (breakdown res) = computeHierarchyBalance tree \<and>
      (\<exists>w1 w2.
         computeRedundancy tree embedClient DEFAULT_THRESHOLD w
           = (Inr (redundancy (breakdown res)), w1) \<and>
         computeGranularity tree chat js DEFAULT_RANGE DEFAULT_ALPHA w1
           = (Inr (granularity (breakdown res)), w2) \<and>
         computeExecutability tree chat js w2 = (Inr (executability (breakdown res)), w'))"
      by blast
  qed
  from s i c show ?thesis by (intro conjI)
qed

theorem tdq_weighted_sum_and_issues_witness:
  "computeTDQ singleTask (answering ''hours'') constantEmbedding DEFAULT_WEIGHTS examplePlatform 0
     = (Inr lowEvaluation, 2) \<and>
   lowEvaluation = tdqResult DEFAULT_WEIGHTS (breakdown lowEvaluation) \<and>
   acyclicity (breakdown lowEvaluation) = computeAcyclicity singleTask \<and>
   tdqScore lowEvaluation = 27 / 40 \<and>
   CyclicDependency \<notin> set (issues lowEvaluation) \<and>
   LowGranularity (1 / 2) \<in> set (issues lowEvaluation)"
proof -
  have run: "computeTDQ singleTask (answering ''hours'') constantEmbedding DEFAULT_WEIGHTS
      examplePlatform 0 = (Inr lowEvaluation, 2)"
    by (simp add: example_computeTDQ eval_nat_numeral)
  note t = tdq_weighted_sum_and_issues [of DEFAULT_WEIGHTS "breakdown lowEvaluation" singleTask
      "answering ''hours''" constantEmbedding examplePlatform 0]
  from t have c: "\<forall>res w'. computeTDQ singleTask (answering ''hours'') constantEmbedding
      DEFAULT_WEIGHTS examplePlatform 0 = (Inr res, w') \<longrightarrow>
      res = tdqResult DEFAULT_WEIGHTS (breakdown res) \<and>
      acyclicity (breakdown res) = computeAcyclicity singleTask"
    by blast
  from c run have a: "lowEvaluation = tdqResult DEFAULT_WEIGHTS (breakdown lowEvaluation)"
    "acyclicity (breakdown lowEvaluation) = computeAcyclicity singleTask" by blast+
  have b: "score (granularity (breakdown lowEvaluation)) = 1 / 2"
    "score (acyclicity (breakdown lowEvaluation)) = 1"
    by (simp_all add: lowEvaluation_def tdqResult_def)
  from t a(1) b have "CyclicDependency \<notin> set (issues lowEvaluation)"
    "LowGranularity (1 / 2) \<in> set (issues lowEvaluation)"
    by simp_all
  with run a lowEvaluation_score(1) show ?thesis by (intro conjI)
qed

section \<open>The tests of the loop\<close>

lemma refine_test:
  "jsLess (Finite (of_int i)) (jsMinus n (Finite 1)) \<longleftrightarrow> jsLess (Finite (of_int (i + 1))) n"
  by (cases n) auto

lemma budgetLeft_next:
  "jsLess (Finite (of_int i)) (jsMinus (toNumber (maxIterations cfg)) (Finite 1))
     \<longleftrightarrow> budgetLeft cfg (i + 1)"
  unfolding budgetLeft_def by (rule refine_test)

lemma budgetLeft_mono: "budgetLeft cfg k \<Longrightarrow> j \<le> k \<Longrightarrow> budgetLeft cfg j"
  unfolding budgetLeft_def by (cases "toNumber (maxIterations cfg)") auto

lemma budgetLeft_finite:
  "maxIterations cfg = Some (Finite m) \<Longrightarrow> budgetLeft cfg k \<longleftrightarrow> of_int k < m"
  by (simp add: budgetLeft_def)

lemma budgetLeft_never:
  "toNumber (maxIterations cfg) = NaN \<or> toNumber (maxIterations cfg) = NegInfinity \<Longrightarrow>
   \<not> budgetLeft cfg k"
  by (auto simp: budgetLeft_def)

lemma budgetLeft_always: "toNumber (maxIterations cfg) = PosInfinity \<Longrightarrow> budgetLeft cfg k"
  by (simp add: budgetLeft_def)

lemma loopBody_cases:
  assumes "loopBody chat embedClient js cfg tree h i w = (Inr step, w')"
  shows "\<exists>r w0. computeTDQ tree chat embedClient DEFAULT_WEIGHTS js w = (Inr r, w0) \<and>
     (case step of
        Return res \<Rightarrow>
          targetReached cfg (tdqScore r) \<and> w' = w0 \<and>
          res = \<lparr>finalTree = tree, finalTDQ = r, iterations = Some (Finite (of_int (i + 1))),
                 history = h @ [entryOf (i + 1) r]\<rparr>
      | Next t' h' i' \<Rightarrow>
          \<not> targetReached cfg (tdqScore r) \<and> h' = h @ [entryOf (i + 1) r] \<and> i' = i + 1 \<and>
          (if budgetLeft cfg (i + 1)
           then refineTaskTree tree r chat js w0 = (Inr t', w')
           else t' = tree \<and> w' = w0))"
  using assms
  by (auto simp: loopBody_def Let_def entryOf_def targetReached_def budgetLeft_next
      split: prod.splits sum.splits if_splits)

lemma loopBody_failure:
  assumes "loopBody chat embedClient js cfg tree h i w = (Inl err, w')"
  shows "computeTDQ tree chat embedClient DEFAULT_WEIGHTS js w = (Inl err, w') \<or>
     (\<exists>r w0. computeTDQ tree chat embedClient DEFAULT_WEIGHTS js w = (Inr r, w0) \<and>
        \<not> targetReached cfg (tdqScore r) \<and> budgetLeft cfg (i + 1) \<and>
        refineTaskTree tree r chat js w0 = (Inl err, w'))"
  using assms
  by (auto simp: loopBody_def Let_def targetReached_def budgetLeft_next
      split: prod.splits sum.splits if_splits)

lemma loopBody_return:
  assumes "computeTDQ tree chat embedClient DEFAULT_WEIGHTS js w = (Inr r, w0)"
    and "targetReached cfg (tdqScore r)"
  shows "loopBody chat embedClient js cfg tree h i w =
     (Inr (Return \<lparr>finalTree = tree, finalTDQ = r, iterations = Some (Finite (of_int (i + 1))),
                    history = h @ [entryOf (i + 1) r]\<rparr>), w0)"
  using assms by (simp add: loopBody_def Let_def entryOf_def targetReached_def)

lemma optimizeLoop_return:
  assumes "budgetLeft cfg i"
    and "computeTDQ tree chat embedClient DEFAULT_WEIGHTS js w = (Inr r, w0)"
    and "targetReached cfg (tdqScore r)"
  shows "optimizeLoop chat embedClient js cfg tree h i w =
     Some (Inr (Returned \<lparr>finalTree = tree, finalTDQ = r,
                          iterations = Some (Finite (of_int (i + 1))),
                          history = h @ [entryOf (i + 1) r]\<rparr>), w0)"
  using assms(1) loopBody_return [OF assms(2,3)]
  by (subst optimizeLoop.simps) (simp add: budgetLeft_def)

lemma optimizeLoop_exhausted:
  assumes "\<not> budgetLeft cfg i"
  shows "optimizeLoop chat embedClient js cfg tree h i w = Some (Inr (Exhausted tree h), w)"
  using assms by (subst optimizeLoop.simps) (simp add: budgetLeft_def)

lemma optimizeLoop_next:
  assumes "budgetLeft cfg i"
    and "loopBody chat embedClient js cfg tree h i w = (Inr (Next t' h' i'), w1)"
  shows "optimizeLoop chat embedClient js cfg tree h i w =
     optimizeLoop chat embedClient js cfg t' h' i' w1"
  using assms by (subst optimizeLoop.simps) (simp add: budgetLeft_def)

lemma optimizeLoop_failure:
  assumes "budgetLeft cfg i"
    and "loopBody chat embedClient js cfg tree h i w = (Inl err, w1)"
  shows "optimizeLoop chat embedClient js cfg tree h i w = Some (Inl err, w1)"
  using assms by (subst optimizeLoop.simps) (simp add: budgetLeft_def)

section \<open>The optimization loop\<close>

lemma map_upt_shift:
  "map (\<lambda>k. f (int k)) [0..<Suc n] = f 0 # map (\<lambda>k. f (1 + int k)) [0..<n]"
proof -
  have "[0..<Suc n] = 0 # map Suc [0..<n]" by (simp add: upt_conv_Cons map_Suc_upt del: upt_Suc)
  then show ?thesis by (simp add: comp_def del: upt_Suc)
qed

lemma optimizeLoop_history_aux:
  assumes run: "optimizeLoop chat embedClient js cfg tree h i w = Some y"
  shows "\<forall>exit w'. y = (Inr exit, w') \<longrightarrow>
   (\<exists>es. exitHistory exit = h @ es \<and>
        map iteration es = map (\<lambda>k. i + 1 + int k) [0..<length es] \<and>
        (es = [] \<longleftrightarrow> \<not> budgetLeft cfg i) \<and>
        (\<forall>k<length es. Suc k = length es \<longleftrightarrow>
           (targetReached cfg (tdq (es ! k)) \<or> \<not> budgetLeft cfg (i + 1 + int k))) \<and>
        recordedFrom chat embedClient js tree i w es \<and>
        (case exit of
           Returned res \<Rightarrow>
             es \<noteq> [] \<and> iterations res = Some (Finite (of_int (i + int (length es)))) \<and>
             tdq (last es) = tdqScore (finalTDQ res) \<and>
             entry_issues (last es) = issues (finalTDQ res) \<and>
             targetReached cfg (tdqScore (finalTDQ res)) \<and>
             (\<exists>w0. computeTDQ (finalTree res) chat embedClient DEFAULT_WEIGHTS js w0
                     = (Inr (finalTDQ res), w'))
         | Exhausted t hh \<Rightarrow>
             (\<forall>e\<in>set es. \<not> targetReached cfg (tdq e)) \<and>
             \<not> budgetLeft cfg (i + int (length es)) \<and>
             (es = [] \<longrightarrow> t = tree \<and> w' = w) \<and>
             (es \<noteq> [] \<longrightarrow>
                (\<exists>r w0. computeTDQ t chat embedClient DEFAULT_WEIGHTS js w0 = (Inr r, w') \<and>
                   tdq (last es) = tdqScore r \<and> entry_issues (last es) = issues r))))"
    (is "?P chat embedClient js cfg tree h i w y")
  using run
proof (rule optimizeLoop.raw_induct [rotated, where P = ?P])
  fix loop :: "'a LLMClient \<Rightarrow> 'a EmbeddingClient \<Rightarrow> Platform \<Rightarrow> OptimizationConfig \<Rightarrow>
      TaskNode \<Rightarrow> HistoryEntry list \<Rightarrow> int \<Rightarrow> 'a \<Rightarrow> ((Failure + LoopExit) \<times> 'a) option"
    and chat embedClient js cfg tree h i w y
  assume IH: "\<And>chat embedClient js cfg tree h i w y.
      loop chat embedClient js cfg tree h i w = Some y \<Longrightarrow> ?P chat embedClient js cfg tree h i w y"
    and hyps: "(if jsLess (Finite (real_of_int i)) (toNumber (maxIterations cfg))
      then case loopBody chat embedClient js cfg tree h i w of
           (Inl err, w1) \<Rightarrow> Some (Inl err, w1)
         | (Inr (Return result), w1) \<Rightarrow> Some (Inr (Returned result), w1)
         | (Inr (Next tree' historyNow' iterationNow'), w1) \<Rightarrow>
             loop chat embedClient js cfg tree' historyNow' iterationNow' w1
      else Some (Inr (Exhausted tree h), w)) = Some y"
  show "?P chat embedClient js cfg tree h i w y"
  proof (intro allI impI)
    fix exit w'
    assume y: "y = (Inr exit, w')"
    show "\<exists>es. exitHistory exit = h @ es \<and>
        map iteration es = map (\<lambda>k. i + 1 + int k) [0..<length es] \<and>
        (es = [] \<longleftrightarrow> \<not> budgetLeft cfg i) \<and>
        (\<forall>k<length es. Suc k = length es \<longleftrightarrow>
           (targetReached cfg (tdq (es ! k)) \<or> \<not> budgetLeft cfg (i + 1 + int k))) \<and>
        recordedFrom chat embedClient js tree i w es \<and>
        (case exit of
           Returned res \<Rightarrow>
             es \<noteq> [] \<and> iterations res = Some (Finite (of_int (i + int (length es)))) \<and>
             tdq (last es) = tdqScore (finalTDQ res) \<and>
             entry_issues (last es) = issues (finalTDQ res) \<and>
             targetReached cfg (tdqScore (finalTDQ res)) \<and>
             (\<exists>w0. computeTDQ (finalTree res) chat embedClient DEFAULT_WEIGHTS js w0
                     = (Inr (finalTDQ res), w'))
         | Exhausted t hh \<Rightarrow>
             (\<forall>e\<in>set es. \<not> targetReached cfg (tdq e)) \<and>
             \<not> budgetLeft cfg (i + int (length es)) \<and>
             (es = [] \<longrightarrow> t = tree \<and> w' = w) \<and>
             (es \<noteq> [] \<longrightarrow>
                (\<exists>r w0. computeTDQ t chat embedClient DEFAULT_WEIGHTS js w0 = (Inr r, w') \<and>
                   tdq (last es) = tdqScore r \<and> entry_issues (last es) = issues r)))"
    proof (cases "budgetLeft cfg i")
      case False
      with hyps y have "exit = Exhausted tree h" "w' = w"
        by (simp_all add: budgetLeft_def)
      with False show ?thesis by (intro exI [of _ "[]"]) simp
    next
      case True
      obtain res1 w1 where body: "loopBody chat embedClient js cfg tree h i w = (res1, w1)"
        by (cases "loopBody chat embedClient js cfg tree h i w")
      with hyps y True obtain step where step: "res1 = Inr step"
        by (cases res1) (simp_all add: budgetLeft_def)
      from loopBody_cases [OF body [unfolded step]]
      obtain r w0 where r: "computeTDQ tree chat embedClient DEFAULT_WEIGHTS js w = (Inr r, w0)"
        and cs: "case step of
          Return res \<Rightarrow>
            targetReached cfg (tdqScore r) \<and> w1 = w0 \<and>
            res = \<lparr>finalTree = tree, finalTDQ = r, iterations = Some (Finite (of_int (i + 1))),
                   history = h @ [entryOf (i + 1) r]\<rparr>
        | Next t' h' i' \<Rightarrow>
            \<not> targetReached cfg (tdqScore r) \<and> h' = h @ [entryOf (i + 1) r] \<and> i' = i + 1 \<and>
            (if budgetLeft cfg (i + 1)
             then refineTaskTree tree r chat js w0 = (Inr t', w1)
             else t' = tree \<and> w1 = w0)"
        by blast
      show ?thesis
      proof (cases step)
        case (Return res)
        with hyps y True body step have e: "exit = Returned res" "w' = w1"
          by (simp_all add: budgetLeft_def)
        from cs Return have c: "targetReached cfg (tdqScore r)" "w1 = w0"
          "res = \<lparr>finalTree = tree, finalTDQ = r, iterations = Some (Finite (of_int (i + 1))),
                   history = h @ [entryOf (i + 1) r]\<rparr>" by simp_all
        show ?thesis
          using e c r True
          by (intro exI [of _ "[entryOf (i + 1) r]"]) (auto simp: entryOf_def)
      next
        case (Next t' h' i')
        with hyps y True body step
        have rc: "loop chat embedClient js cfg t' h' i' w1 = Some (Inr exit, w')"
          by (simp add: budgetLeft_def)
        from cs Next have c: "\<not> targetReached cfg (tdqScore r)" "h' = h @ [entryOf (i + 1) r]"
          "i' = i + 1"
          "if budgetLeft cfg (i + 1)
             then refineTaskTree tree r chat js w0 = (Inr t', w1)
             else t' = tree \<and> w1 = w0" by simp_all
        from IH [OF rc, rule_format, OF refl]
        obtain es where es: "exitHistory exit = h' @ es"
          "map iteration es = map (\<lambda>k. i' + 1 + int k) [0..<length es]"
          "es = [] \<longleftrightarrow> \<not> budgetLeft cfg i'"
          "\<forall>k<length es. Suc k = length es \<longleftrightarrow>
             (targetReached cfg (tdq (es ! k)) \<or> \<not> budgetLeft cfg (i' + 1 + int k))"
          "recordedFrom chat embedClient js t' i' w1 es"
          "case exit of
             Returned res \<Rightarrow>
               es \<noteq> [] \<and> iterations res = Some (Finite (of_int (i' + int (length es)))) \<and>
               tdq (last es) = tdqScore (finalTDQ res) \<and>
               entry_issues (last es) = issues (finalTDQ res) \<and>
               targetReached cfg (tdqScore (finalTDQ res)) \<and>
               (\<exists>w0. computeTDQ (finalTree res) chat embedClient DEFAULT_WEIGHTS js w0
                       = (Inr (finalTDQ res), w'))
           | Exhausted t hh \<Rightarrow>
               (\<forall>e\<in>set es. \<not> targetReached cfg (tdq e)) \<and>
               \<not> budgetLeft cfg (i' + int (length es)) \<and>
               (es = [] \<longrightarrow> t = t' \<and> w' = w1) \<and>
               (es \<noteq> [] \<longrightarrow>
                  (\<exists>r w0. computeTDQ t chat embedClient DEFAULT_WEIGHTS js w0 = (Inr r, w') \<and>
                     tdq (last es) = tdqScore r \<and> entry_issues (last es) = issues r))"
          by blast
        let ?e = "entryOf (i + 1) r"
        let ?es = "?e # es"
        have h1: "exitHistory exit = h @ ?es" using es(1) c(2) by simp
        have h2: "map iteration ?es = map (\<lambda>k. i + 1 + int k) [0..<length ?es]"
          using es(2) c(3) map_upt_shift [of "\<lambda>k. i + 1 + k" "length es"]
          by (simp add: entryOf_def add.assoc del: upt_Suc)
        have h3: "?es = [] \<longleftrightarrow> \<not> budgetLeft cfg i" using True by simp
        have h4: "Suc k = length ?es \<longleftrightarrow>
             (targetReached cfg (tdq (?es ! k)) \<or> \<not> budgetLeft cfg (i + 1 + int k))"
          if "k < length ?es" for k
        proof (cases k)
          case 0
          with es(3) c(1,3) show ?thesis by (auto simp: entryOf_def)
        next
          case (Suc k')
          with that es(4) c(3) show ?thesis by (auto simp: add.assoc)
        qed
        have h5: "recordedFrom chat embedClient js tree i w ?es"
        proof (cases "es = []")
          case True
          with r show ?thesis by simp
        next
          case False
          with es(3) c(3) have "budgetLeft cfg (i + 1)" by simp
          with c(4) have "refineTaskTree tree r chat js w0 = (Inr t', w1)" by simp
          with r es(5) c(3) show ?thesis by simp
        qed
        have h6: "case exit of
             Returned res \<Rightarrow>
               ?es \<noteq> [] \<and> iterations res = Some (Finite (of_int (i + int (length ?es)))) \<and>
               tdq (last ?es) = tdqScore (finalTDQ res) \<and>
               entry_issues (last ?es) = issues (finalTDQ res) \<and>
               targetReached cfg (tdqScore (finalTDQ res)) \<and>
               (\<exists>w0. computeTDQ (finalTree res) chat embedClient DEFAULT_WEIGHTS js w0
                       = (Inr (finalTDQ res), w'))
           | Exhausted t hh \<Rightarrow>
               (\<forall>e\<in>set ?es. \<not> targetReached cfg (tdq e)) \<and>
               \<not> budgetLeft cfg (i + int (length ?es)) \<and>
               (?es = [] \<longrightarrow> t = tree \<and> w' = w) \<and>
               (?es \<noteq> [] \<longrightarrow>
                  (\<exists>r w0. computeTDQ t chat embedClient DEFAULT_WEIGHTS js w0 = (Inr r, w') \<and>
                     tdq (last ?es) = tdqScore r \<and> entry_issues (last ?es) = issues r))"
        proof (cases exit)
          case (Returned res)
          with es(6) c(3) show ?thesis by (auto simp: add.assoc)
        next
          case (Exhausted t hh)
          show ?thesis
          proof (cases "es = []")
            case True
            with es(3) c(3) have "\<not> budgetLeft cfg (i + 1)" by simp
            with c(4) have "t' = tree" "w1 = w0" by simp_all
            with es(6) Exhausted True have "t = tree" "w' = w0" by simp_all
            with r True Exhausted c(1,3) es(3) show ?thesis
              by (auto simp: entryOf_def)
          next
            case False
            with es(6) Exhausted c(1,3) show ?thesis
              by (auto simp: entryOf_def add.assoc)
          qed
        qed
        from h1 h2 h3 h4 h5 h6 show ?thesis by blast
      qed
    qed
  qed
qed

lemma optimizeLoop_history:
  assumes "optimizeLoop chat embedClient js cfg tree h i w = Some (Inr exit, w')"
  shows "\<exists>es. exitHistory exit = h @ es \<and>
        map iteration es = map (\<lambda>k. i + 1 + int k) [0..<length es] \<and>
        (es = [] \<longleftrightarrow> \<not> budgetLeft cfg i) \<and>
        (\<forall>k<length es. Suc k = length es \<longleftrightarrow>
           (targetReached cfg (tdq (es ! k)) \<or> \<not> budgetLeft cfg (i + 1 + int k))) \<and>
        recordedFrom chat embedClient js tree i w es \<and>
        (case exit of
           Returned res \<Rightarrow>
             es \<noteq> [] \<and> iterations res = Some (Finite (of_int (i + int (length es)))) \<and>
             tdq (last es) = tdqScore (finalTDQ res) \<and>
             entry_issues (last es) = issues (finalTDQ res) \<and>
             targetReached cfg (tdqScore (finalTDQ res)) \<and>
             (\<exists>w0. computeTDQ (finalTree res) chat embedClient DEFAULT_WEIGHTS js w0
                     = (Inr (finalTDQ res), w'))
         | Exhausted t hh \<Rightarrow>
             (\<forall>e\<in>set es. \<not> targetReached cfg (tdq e)) \<and>
             \<not> budgetLeft cfg (i + int (length es)) \<and>
             (es = [] \<longrightarrow> t = tree \<and> w' = w) \<and>
             (es \<noteq> [] \<longrightarrow>
                (\<exists>r w0. computeTDQ t chat embedClient DEFAULT_WEIGHTS js w0 = (Inr r, w') \<and>
                   tdq (last es) = tdqScore r \<and> entry_issues (last es) = issues r)))"
  using optimizeLoop_history_aux [OF assms] by blast

text \<open>Every entry but the last was followed by another test of the loop that succeeded.\<close>

lemma entries_within_budget:
  assumes last: "\<forall>k<length es. Suc k = length es \<longleftrightarrow>
           (targetReached cfg (tdq (es ! k)) \<or> \<not> budgetLeft cfg (i + 1 + int k))"
    and first: "es = [] \<longleftrightarrow> \<not> budgetLeft cfg i"
    and k: "k < length es"
  shows "budgetLeft cfg (i + int k)"
proof (cases k)
  case 0
  with first k show ?thesis by auto
next
  case (Suc j)
  with k have "j < length es" "Suc j \<noteq> length es" by simp_all
  with last have "budgetLeft cfg (i + 1 + int j)" by blast
  with Suc show ?thesis by (simp add: ac_simps)
qed

lemma exhausted_length:
  assumes "optimizeLoop chat embedClient js cfg tree h i w = Some (Inr (Exhausted t hh), w')"
  shows "\<exists>es. hh = h @ es \<and> (\<forall>k. k < length es \<longleftrightarrow> budgetLeft cfg (i + int k))"
proof -
  from optimizeLoop_history [OF assms]
  obtain es where es: "hh = h @ es" "es = [] \<longleftrightarrow> \<not> budgetLeft cfg i"
    "\<forall>k<length es. Suc k = length es \<longleftrightarrow>
           (targetReached cfg (tdq (es ! k)) \<or> \<not> budgetLeft cfg (i + 1 + int k))"
    "\<not> budgetLeft cfg (i + int (length es))"
    by auto
  have "k < length es \<longleftrightarrow> budgetLeft cfg (i + int k)" for k
  proof
    assume "k < length es"
    then show "budgetLeft cfg (i + int k)" by (rule entries_within_budget [OF es(3,2)])
  next
    assume b: "budgetLeft cfg (i + int k)"
    show "k < length es"
    proof (rule ccontr)
      assume "\<not> k < length es"
      then have "i + int (length es) \<le> i + int k" by simp
      from budgetLeft_mono [OF b this] es(4) show False by simp
    qed
  qed
  with es(1) show ?thesis by blast
qed

lemma exhausted_count:
  assumes "\<forall>k. k < n \<longleftrightarrow> budgetLeft cfg (int k)"
    and "maxIterations cfg = Some (Finite (of_int m))" and "0 \<le> m"
  shows "int n = m"
proof -
  have "real k < real_of_int m \<longleftrightarrow> int k < m" for k
    using of_int_less_iff [of "int k" m, where 'a = real] by simp
  with assms(1,2) have iff: "k < n \<longleftrightarrow> int k < m" for k
    by (simp add: budgetLeft_def)
  from iff [of n] have "m \<le> int n" by simp
  moreover have "int n \<le> m"
  proof (cases n)
    case 0
    with assms(3) show ?thesis by simp
  next
    case (Suc j)
    with iff [of j] show ?thesis by simp
  qed
  ultimately show ?thesis by simp
qed

lemma optimizeLoop_returns_finite:
  assumes m: "toNumber (maxIterations cfg) = Finite m"
  shows "nat \<lceil>m - of_int i\<rceil> = n \<Longrightarrow> \<exists>y. optimizeLoop chat embedClient js cfg tree h i w = Some y"
proof (induction n arbitrary: tree h i w rule: less_induct)
  case (less n)
  show ?case
  proof (cases "budgetLeft cfg i")
    case False
    then show ?thesis by (simp add: optimizeLoop_exhausted)
  next
    case True
    with m have lt: "of_int i < m" by (simp add: budgetLeft_def)
    obtain res1 w1 where body: "loopBody chat embedClient js cfg tree h i w = (res1, w1)"
      by (cases "loopBody chat embedClient js cfg tree h i w")
    show ?thesis
    proof (cases res1)
      case (Inl err)
      with optimizeLoop_failure [OF True body [unfolded Inl]] show ?thesis by simp
    next
      case (Inr step)
      show ?thesis
      proof (cases step)
        case (Return res)
        with True body Inr show ?thesis
          by (subst optimizeLoop.simps) (simp add: budgetLeft_def)
      next
        case (Next t' h' i')
        from loopBody_cases [OF body [unfolded Inr]] Next have i': "i' = i + 1" by auto
        from lt have "0 < \<lceil>m - of_int i\<rceil>" by (simp add: less_ceiling_iff)
        moreover have "m - of_int (i + 1) = (m - of_int i) - 1" by simp
        then have "\<lceil>m - of_int (i + 1)\<rceil> = \<lceil>m - of_int i\<rceil> - 1"
          by (simp only: ceiling_diff_one)
        ultimately have "nat \<lceil>m - of_int i'\<rceil> < n" using less.prems i' by simp
        from less.IH [OF this refl, of t' h' w1]
        show ?thesis
          using optimizeLoop_next [OF True body [unfolded Inr Next]] by simp
      qed
    qed
  qed
qed

lemma optimizeLoop_returns:
  assumes "toNumber (maxIterations cfg) \<noteq> PosInfinity"
  shows "\<exists>y. optimizeLoop chat embedClient js cfg tree h i w = Some y"
proof (cases "toNumber (maxIterations cfg)")
  case (Finite m)
  then show ?thesis by (rule optimizeLoop_returns_finite [OF _ refl])
qed (use assms in \<open>simp_all add: optimizeLoop_exhausted budgetLeft_def\<close>)

lemma optimizeTaskDecomposition_exhausted:
  assumes "generateTaskTree userInput chat js w = (Inr tree0, w1)"
    and "optimizeLoop chat embedClient js (mergeConfig config) tree0 [] 0 w1
           = Some (Inr (Exhausted t h), w2)"
  shows "optimizeTaskDecomposition userInput chat embedClient config js w =
     (case computeTDQ t chat embedClient DEFAULT_WEIGHTS js w2 of
        (Inl err, w3) \<Rightarrow> Some (Inl err, w3)
      | (Inr f, w3) \<Rightarrow>
          Some (Inr \<lparr>finalTree = t, finalTDQ = f,
                     iterations = maxIterations (mergeConfig config), history = h\<rparr>, w3))"
  using assms by (simp add: optimizeTaskDecomposition_def Let_def)

lemma optimizeTaskDecomposition_returned:
  assumes "generateTaskTree userInput chat js w = (Inr tree0, w1)"
    and "optimizeLoop chat embedClient js (mergeConfig config) tree0 [] 0 w1
           = Some (Inr (Returned res), w2)"
  shows "optimizeTaskDecomposition userInput chat embedClient config js w = Some (Inr res, w2)"
  using assms by (simp add: optimizeTaskDecomposition_def Let_def)

lemma optimizeTaskDecomposition_loop_failure:
  assumes "generateTaskTree userInput chat js w = (Inr tree0, w1)"
    and "optimizeLoop chat embedClient js (mergeConfig config) tree0 [] 0 w1
           = Some (Inl err, w2)"
  shows "optimizeTaskDecomposition userInput chat embedClient config js w = Some (Inl err, w2)"
  using assms by (simp add: optimizeTaskDecomposition_def Let_def)

lemma optimizeTaskDecomposition_generate_failure:
  assumes "generateTaskTree userInput chat js w = (Inl err, w1)"
  shows "optimizeTaskDecomposition userInput chat embedClient config js w = Some (Inl err, w1)"
  using assms by (simp add: optimizeTaskDecomposition_def Let_def)

lemma optimizeTaskDecomposition_result:
  assumes "optimizeTaskDecomposition userInput chat embedClient config js w = Some (Inr res, w')"
  shows "\<exists>tree0 w1 exit w2.
     generateTaskTree userInput chat js w = (Inr tree0, w1) \<and>
     optimizeLoop chat embedClient js (mergeConfig config) tree0 [] 0 w1 = Some (Inr exit, w2) \<and>
     (case exit of
        Returned result \<Rightarrow> res = result \<and> w' = w2
      | Exhausted t hh \<Rightarrow>
          (\<exists>f. computeTDQ t chat embedClient DEFAULT_WEIGHTS js w2 = (Inr f, w') \<and>
             res = \<lparr>finalTree = t, finalTDQ = f,
                    iterations = maxIterations (mergeConfig config), history = hh\<rparr>))"
  using assms
  by (auto simp: optimizeTaskDecomposition_def Let_def
      split: prod.splits sum.splits LoopExit.splits option.splits)

lemma optimizeTaskDecomposition_returns:
  assumes "toNumber (maxIterations (mergeConfig config)) \<noteq> PosInfinity"
  shows "\<exists>y. optimizeTaskDecomposition userInput chat embedClient config js w = Some y"
proof (cases "generateTaskTree userInput chat js w")
  case (Pair g w1)
  show ?thesis
  proof (cases g)
    case (Inl err)
    with Pair show ?thesis by (simp add: optimizeTaskDecomposition_generate_failure)
  next
    case (Inr tree0)
    from optimizeLoop_returns [OF assms, where chat = chat and embedClient = embedClient
        and js = js and tree = tree0 and h = "[]" and i = 0 and w = w1]
    obtain y where y: "optimizeLoop chat embedClient js (mergeConfig config) tree0 [] 0 w1 = Some y"
      by blast
    with Pair Inr show ?thesis
      by (auto simp: optimizeTaskDecomposition_def Let_def
          split: prod.splits sum.splits LoopExit.splits)
  qed
qed

section \<open>Example runs of the loop\<close>

lemma example_config:
  "maxIterations (mergeConfig twoRounds) = Some (Finite 2)"
  "targetTDQ (mergeConfig twoRounds) = Some (Finite (3 / 4))"
  "maxIterations (mergeConfig negativeBudget) = Some (Finite (- 1))"
  "targetTDQ (mergeConfig negativeBudget) = Some (Finite (3 / 4))"
  "maxIterations (mergeConfig undefinedBudget) = None"
  "targetTDQ (mergeConfig undefinedBudget) = Some (Finite (3 / 4))"
  "maxIterations (mergeConfig fractionalBudget) = Some (Finite (3 / 2))"
  "targetTDQ (mergeConfig fractionalBudget) = Some (Finite (3 / 4))"
  "maxIterations (mergeConfig lowTarget) = Some (Finite 5)"
  "targetTDQ (mergeConfig lowTarget) = Some (Finite (1 / 2))"
  by (simp_all add: mergeConfig_def twoRounds_def negativeBudget_def undefinedBudget_def
      fractionalBudget_def lowTarget_def DEFAULT_CONFIG_def)

lemma example_budget:
  "budgetLeft (mergeConfig twoRounds) k \<longleftrightarrow> k < 2"
  "\<not> budgetLeft (mergeConfig negativeBudget) 0"
  "\<not> budgetLeft (mergeConfig undefinedBudget) k"
  "budgetLeft (mergeConfig fractionalBudget) k \<longleftrightarrow> k < 2"
  "budgetLeft (mergeConfig lowTarget) 0"
proof -
  have "real_of_int k < 3 / 2 \<longleftrightarrow> k < 2" by linarith
  then show "budgetLeft (mergeConfig fractionalBudget) k \<longleftrightarrow> k < 2"
    by (simp add: budgetLeft_def example_config)
qed (simp_all add: budgetLeft_def example_config)

lemma example_target:
  "\<not> targetReached (mergeConfig twoRounds) (27 / 40)"
  "\<not> targetReached (mergeConfig negativeBudget) (27 / 40)"
  "\<not> targetReached (mergeConfig undefinedBudget) (27 / 40)"
  "\<not> targetReached (mergeConfig fractionalBudget) (27 / 40)"
  "targetReached (mergeConfig lowTarget) (27 / 40)"
  by (simp_all add: targetReached_def example_config)

lemma example_loopBody:
  assumes "\<not> targetReached cfg (27 / 40)"
  shows "loopBody (answering ''hours'') constantEmbedding examplePlatform cfg singleTask h i w =
     (Inr (Next singleTask (h @ [entryOf (i + 1) lowEvaluation]) (i + 1)),
      if budgetLeft cfg (i + 1) then Suc (Suc (Suc w)) else Suc (Suc w))"
  using assms
  by (simp add: loopBody_def example_computeTDQ lowEvaluation_score example_refine entryOf_def
      Let_def targetReached_def budgetLeft_next)

lemma example_loop_two_rounds:
  assumes t: "\<not> targetReached cfg (27 / 40)" and b: "\<And>k. budgetLeft cfg k \<longleftrightarrow> k < 2"
  shows "optimizeLoop (answering ''hours'') constantEmbedding examplePlatform cfg
     singleTask [] 0 w
   = Some (Inr (Exhausted singleTask [entryOf 1 lowEvaluation, entryOf 2 lowEvaluation]),
      Suc (Suc (Suc (Suc (Suc w)))))"
proof -
  have 3: "optimizeLoop (answering ''hours'') constantEmbedding examplePlatform cfg
     singleTask [entryOf 1 lowEvaluation, entryOf 2 lowEvaluation] 2 v
   = Some (Inr (Exhausted singleTask [entryOf 1 lowEvaluation, entryOf 2 lowEvaluation]), v)"
    for v
    by (rule optimizeLoop_exhausted) (simp add: b)
  have 2: "optimizeLoop (answering ''hours'') constantEmbedding examplePlatform cfg
     singleTask [entryOf 1 lowEvaluation] 1 v
   = Some (Inr (Exhausted singleTask [entryOf 1 lowEvaluation, entryOf 2 lowEvaluation]),
       Suc (Suc v))"
    for v
    using optimizeLoop_next [of cfg 1, OF _ example_loopBody [OF t]] 3
    by (simp add: b)
  show ?thesis
    using optimizeLoop_next [of cfg 0, OF _ example_loopBody [OF t]] 2
    by (simp add: b)
qed

lemma example_run_two_rounds:
  "optimizeTaskDecomposition ''task'' (answering ''hours'') constantEmbedding twoRounds
     examplePlatform 0
   = Some (Inr \<lparr>finalTree = singleTask, finalTDQ = lowEvaluation, iterations = Some (Finite 2),
           history = [entryOf 1 lowEvaluation, entryOf 2 lowEvaluation]\<rparr>, 8)"
  using optimizeTaskDecomposition_exhausted [OF example_generate [of "''task''" 0]
      example_loop_two_rounds [OF example_target(1) example_budget(1)]]
  by (simp add: example_computeTDQ example_config eval_nat_numeral)

lemma example_run_fractional:
  "optimizeTaskDecomposition ''task'' (answering ''hours'') constantEmbedding fractionalBudget
     examplePlatform 0
   = Some (Inr \<lparr>finalTree = singleTask, finalTDQ = lowEvaluation,
                 iterations = Some (Finite (3 / 2)),
                 history = [entryOf 1 lowEvaluation, entryOf 2 lowEvaluation]\<rparr>, 8)"
  using optimizeTaskDecomposition_exhausted [OF example_generate [of "''task''" 0]
      example_loop_two_rounds [OF example_target(4) example_budget(4)]]
  by (simp add: example_computeTDQ example_config eval_nat_numeral)

lemma example_run_negative:
  "optimizeTaskDecomposition ''task'' (answering ''hours'') constantEmbedding negativeBudget
     examplePlatform 0
   = Some (Inr \<lparr>finalTree = singleTask, finalTDQ = lowEvaluation,
                 iterations = Some (Finite (- 1)), history = []\<rparr>, 3)"
  using optimizeTaskDecomposition_exhausted [OF example_generate [of "''task''" 0]
      optimizeLoop_exhausted [OF example_budget(2)]]
  by (simp add: example_computeTDQ example_config eval_nat_numeral)

lemma example_run_undefined:
  "optimizeTaskDecomposition ''task'' (answering ''hours'') constantEmbedding undefinedBudget
     examplePlatform 0
   = Some (Inr \<lparr>finalTree = singleTask, finalTDQ = lowEvaluation, iterations = None,
                 history = []\<rparr>, 3)"
  using optimizeTaskDecomposition_exhausted [OF example_generate [of "''task''" 0]
      optimizeLoop_exhausted [OF example_budget(3)]]
  by (simp add: example_computeTDQ example_config eval_nat_numeral)

lemma example_run_low_target:
  "optimizeTaskDecomposition ''task'' (answering ''hours'') constantEmbedding lowTarget
     examplePlatform 0
   = Some (Inr \<lparr>finalTree = singleTask, finalTDQ = lowEvaluation, iterations = Some (Finite 1),
                 history = [entryOf 1 lowEvaluation]\<rparr>, 3)"
proof -
  have t: "targetReached (mergeConfig lowTarget) (tdqScore lowEvaluation)"
    by (simp add: lowEvaluation_score example_target)
  from optimizeTaskDecomposition_returned [OF example_generate [of "''task''" 0]
      optimizeLoop_return [OF example_budget(5) example_computeTDQ t]]
  show ?thesis by (simp add: eval_nat_numeral)
qed

section \<open>Properties of the optimization loop\<close>

text \<open>
  Claim C4 says that the returned iteration count equals the number of history entries.
  The run below, with \<open>maxIterations = -1\<close>, never enters the loop: its history is empty
  and the count it returns is \<open>-1\<close>. When the loop ends by exhaustion the function
  returns \<open>maxIterations\<close> itself as the count, where the return from inside the loop
  gives the iteration counter plus one.
\<close>

theorem optimization_negative_budget_iterations:
  "optimizeTaskDecomposition ''task'' (answering ''hours'') constantEmbedding negativeBudget
     examplePlatform 0
   = Some (Inr \<lparr>finalTree = singleTask, finalTDQ = lowEvaluation,
                 iterations = Some (Finite (- 1)), history = []\<rparr>, 3)"
  by (rule example_run_negative)

text \<open>
  The history of a run. A pass through the loop body that does not fail evaluates the
  current tree once and appends exactly one entry, which carries the iteration counter
  plus one and the score and the issues of that evaluation; the pass returns if and only
  if the score has reached the target. A test of the loop with budget left, followed by an
  evaluation that reaches the target, returns from the loop with that evaluation, and the
  run returns what the loop returned; the count is then the number of history entries. In
  the history of every returned result the iteration numbers are 1, 2, ..., n in this
  order, the entries are the evaluations of the generated tree and of its successive
  refinements, an entry is the last one if and only if its score has reached the target or
  its number has used up the budget, and the history is empty if and only if there is no
  budget at all. The count equals the number of entries unless the loop ended by
  exhaustion with a \<open>maxIterations\<close> other than that number.
\<close>

lemma optimization_history:
  fixes chat :: "'w LLMClient"
  shows
  "(\<forall>step w1. loopBody chat embedClient js cfg tree h i w = (Inr step, w1) \<longrightarrow>
      (\<exists>r w0. computeTDQ tree chat embedClient DEFAULT_WEIGHTS js w = (Inr r, w0) \<and>
         stepHistory step = h @ [entryOf (i + 1) r] \<and>
         (isReturn step \<longleftrightarrow> targetReached cfg (tdqScore r)))) \<and>
   (\<forall>r w0. budgetLeft cfg i \<and>
      computeTDQ tree chat embedClient DEFAULT_WEIGHTS js w = (Inr r, w0) \<and>
      targetReached cfg (tdqScore r) \<longrightarrow>
      optimizeLoop chat embedClient js cfg tree h i w =
        Some (Inr (Returned \<lparr>finalTree = tree, finalTDQ = r,
                             iterations = Some (Finite (of_int (i + 1))),
                             history = h @ [entryOf (i + 1) r]\<rparr>), w0)) \<and>
   (\<forall>tree0 w1 res w2.
      generateTaskTree userInput chat js w = (Inr tree0, w1) \<and>
      optimizeLoop chat embedClient js (mergeConfig config) tree0 [] 0 w1
        = Some (Inr (Returned res), w2) \<longrightarrow>
      optimizeTaskDecomposition userInput chat embedClient config js w = Some (Inr res, w2) \<and>
      iterations res = Some (Finite (of_int (int (length (history res)))))) \<and>
   (\<forall>res w'.
      optimizeTaskDecomposition userInput chat embedClient config js w = Some (Inr res, w') \<longrightarrow>
      map iteration (history res) = map (\<lambda>k. 1 + int k) [0..<length (history res)] \<and>
      (\<exists>tree0 w1. generateTaskTree userInput chat js w = (Inr tree0, w1) \<and>
         recordedFrom chat embedClient js tree0 0 w1 (history res)) \<and>
      (\<forall>k<length (history res). Suc k = length (history res) \<longleftrightarrow>
         (targetReached (mergeConfig config) (tdq (history res ! k)) \<or>
          \<not> budgetLeft (mergeConfig config) (1 + int k))) \<and>
      (history res = [] \<longleftrightarrow> \<not> budgetLeft (mergeConfig config) 0) \<and>
      (iterations res = Some (Finite (of_int (int (length (history res))))) \<or>
       iterations res = maxIterations (mergeConfig config) \<and>
       \<not> budgetLeft (mergeConfig config) (int (length (history res)))))"
proof -
  let ?cfg = "mergeConfig config"
  have body: "\<exists>r w0. computeTDQ tree chat embedClient DEFAULT_WEIGHTS js w = (Inr r, w0) \<and>
         stepHistory step = h @ [entryOf (i + 1) r] \<and>
         (isReturn step \<longleftrightarrow> targetReached cfg (tdqScore r))"
    if "loopBody chat embedClient js cfg tree h i w = (Inr step, w1)" for step w1
    using loopBody_cases [OF that] by (cases step) auto
  have succ: "optimizeLoop chat embedClient js cfg tree h i w =
        Some (Inr (Returned \<lparr>finalTree = tree, finalTDQ = r,
                             iterations = Some (Finite (of_int (i + 1))),
                             history = h @ [entryOf (i + 1) r]\<rparr>), w0)"
    if "budgetLeft cfg i \<and> computeTDQ tree chat embedClient DEFAULT_WEIGHTS js w = (Inr r, w0) \<and>
      targetReached cfg (tdqScore r)" for r w0
    using that by (intro optimizeLoop_return) simp_all
  have ret: "optimizeTaskDecomposition userInput chat embedClient config js w = Some (Inr res, w2) \<and>
      iterations res = Some (Finite (of_int (int (length (history res)))))"
    if "generateTaskTree userInput chat js w = (Inr tree0, w1) \<and>
      optimizeLoop chat embedClient js ?cfg tree0 [] 0 w1 = Some (Inr (Returned res), w2)"
    for tree0 w1 res w2
  proof -
    from that have g: "generateTaskTree userInput chat js w = (Inr tree0, w1)"
      and l: "optimizeLoop chat embedClient js ?cfg tree0 [] 0 w1 = Some (Inr (Returned res), w2)"
      by simp_all
    from optimizeLoop_history [OF l]
    have "iterations res = Some (Finite (of_int (int (length (history res)))))" by auto
    with optimizeTaskDecomposition_returned [OF g l] show ?thesis by simp
  qed
  have run: "map iteration (history res) = map (\<lambda>k. 1 + int k) [0..<length (history res)] \<and>
      (\<exists>tree0 w1. generateTaskTree userInput chat js w = (Inr tree0, w1) \<and>
         recordedFrom chat embedClient js tree0 0 w1 (history res)) \<and>
      (\<forall>k<length (history res). Suc k = length (history res) \<longleftrightarrow>
         (targetReached ?cfg (tdq (history res ! k)) \<or> \<not> budgetLeft ?cfg (1 + int k))) \<and>
      (history res = [] \<longleftrightarrow> \<not> budgetLeft ?cfg 0) \<and>
      (iterations res = Some (Finite (of_int (int (length (history res))))) \<or>
       iterations res = maxIterations ?cfg \<and>
       \<not> budgetLeft ?cfg (int (length (history res))))"
    if "optimizeTaskDecomposition userInput chat embedClient config js w = Some (Inr res, w')"
    for res w'
  proof -
    from optimizeTaskDecomposition_result [OF that]
    obtain tree0 w1 exit w2 where
      gen: "generateTaskTree userInput chat js w = (Inr tree0, w1)"
      and loop: "optimizeLoop chat embedClient js ?cfg tree0 [] 0 w1 = Some (Inr exit, w2)"
      and ex: "case exit of
        Returned result \<Rightarrow> res = result \<and> w' = w2
      | Exhausted t hh \<Rightarrow>
          (\<exists>f. computeTDQ t chat embedClient DEFAULT_WEIGHTS js w2 = (Inr f, w') \<and>
             res = \<lparr>finalTree = t, finalTDQ = f, iterations = maxIterations ?cfg, history = hh\<rparr>)"
      by blast
    from optimizeLoop_history [OF loop]
    obtain es where es: "exitHistory exit = es"
      "map iteration es = map (\<lambda>k. 1 + int k) [0..<length es]"
      "es = [] \<longleftrightarrow> \<not> budgetLeft ?cfg 0"
      "\<forall>k<length es. Suc k = length es \<longleftrightarrow>
           (targetReached ?cfg (tdq (es ! k)) \<or> \<not> budgetLeft ?cfg (1 + int k))"
      "recordedFrom chat embedClient js tree0 0 w1 es"
      "case exit of
           Returned res \<Rightarrow> iterations res = Some (Finite (of_int (int (length es))))
         | Exhausted t hh \<Rightarrow> \<not> budgetLeft ?cfg (int (length es))"
      by (cases exit) auto
    have "history res = es \<and>
      (iterations res = Some (Finite (of_int (int (length es)))) \<or>
       iterations res = maxIterations ?cfg \<and> \<not> budgetLeft ?cfg (int (length es)))"
      using ex es(1,6) by (cases exit) auto
    then have hr: "history res = es"
      and it: "iterations res = Some (Finite (of_int (int (length es)))) \<or>
       iterations res = maxIterations ?cfg \<and> \<not> budgetLeft ?cfg (int (length es))"
      by simp_all
    have "\<exists>tree0 w1. generateTaskTree userInput chat js w = (Inr tree0, w1) \<and>
         recordedFrom chat embedClient js tree0 0 w1 es"
      using gen es(5) by blast
    with es(2-4) it show ?thesis unfolding hr by (intro conjI)
  qed
  from body succ ret run show ?thesis by blast
qed

text \<open>
  Claim C10: when the loop ends because the iteration counter has reached
  \<open>maxIterations\<close>, no evaluation reached the target, and the function evaluates the tree
  once more, in the state the loop ended in, returns this evaluation as \<open>finalTDQ\<close> and
  returns the history of the loop as it is. The history has one entry for each value of
  the iteration counter below \<open>maxIterations\<close>, so \<open>maxIterations\<close> entries when that is
  a non-negative integer. The last entry of the history records an evaluation of the same
  tree, the one that ended in the state the loop ended in. With collaborators whose
  answers do not depend on the state, the final evaluation has the score and the issues
  of the last history entry. Unless \<open>maxIterations\<close> is infinite, the run returns.
\<close>

theorem exhausted_budget_final_evaluation:
  fixes chat :: "'w LLMClient"
  shows
  "(\<forall>tree0 w1 t h w2.
      generateTaskTree userInput chat js w = (Inr tree0, w1) \<and>
      optimizeLoop chat embedClient js (mergeConfig config) tree0 [] 0 w1
        = Some (Inr (Exhausted t h), w2) \<longrightarrow>
      (\<forall>e\<in>set h. \<not> targetReached (mergeConfig config) (tdq e)) \<and>
      (\<forall>k. k < length h \<longleftrightarrow> budgetLeft (mergeConfig config) (int k)) \<and>
      (\<forall>m. maxIterations (mergeConfig config) = Some (Finite (of_int m)) \<and> 0 \<le> m \<longrightarrow>
         int (length h) = m) \<and>
      optimizeTaskDecomposition userInput chat embedClient config js w =
        (case computeTDQ t chat embedClient DEFAULT_WEIGHTS js w2 of
           (Inl err, w3) \<Rightarrow> Some (Inl err, w3)
         | (Inr f, w3) \<Rightarrow>
             Some (Inr \<lparr>finalTree = t, finalTDQ = f,
                        iterations = maxIterations (mergeConfig config), history = h\<rparr>, w3)) \<and>
      (h \<noteq> [] \<longrightarrow>
         (\<exists>r w0. computeTDQ t chat embedClient DEFAULT_WEIGHTS js w0 = (Inr r, w2) \<and>
            tdq (last h) = tdqScore r \<and> entry_issues (last h) = issues r)) \<and>
      (deterministicChat chat \<and> deterministicEmbedding embedClient \<and> h \<noteq> [] \<longrightarrow>
         (\<forall>f w3. computeTDQ t chat embedClient DEFAULT_WEIGHTS js w2 = (Inr f, w3) \<longrightarrow>
            tdqScore f = tdq (last h) \<and> issues f = entry_issues (last h)))) \<and>
   (toNumber (maxIterations (mergeConfig config)) \<noteq> PosInfinity \<longrightarrow>
      (\<exists>y. optimizeTaskDecomposition userInput chat embedClient config js w = Some y))"
proof (intro conjI allI impI)
  assume "toNumber (maxIterations (mergeConfig config)) \<noteq> PosInfinity"
  then show "\<exists>y. optimizeTaskDecomposition userInput chat embedClient config js w = Some y"
    by (rule optimizeTaskDecomposition_returns)
next
  fix tree0 w1 t h w2
  let ?cfg = "mergeConfig config"
  assume a: "generateTaskTree userInput chat js w = (Inr tree0, w1) \<and>
      optimizeLoop chat embedClient js ?cfg tree0 [] 0 w1 = Some (Inr (Exhausted t h), w2)"
  then have gen: "generateTaskTree userInput chat js w = (Inr tree0, w1)"
    and loop: "optimizeLoop chat embedClient js ?cfg tree0 [] 0 w1
      = Some (Inr (Exhausted t h), w2)"
    by simp_all
  from optimizeLoop_history [OF loop]
  have inv: "\<forall>e\<in>set h. \<not> targetReached ?cfg (tdq e)"
    "h \<noteq> [] \<longrightarrow>
       (\<exists>r w0. computeTDQ t chat embedClient DEFAULT_WEIGHTS js w0 = (Inr r, w2) \<and>
          tdq (last h) = tdqScore r \<and> entry_issues (last h) = issues r)"
    by auto
  from exhausted_length [OF loop]
  have len: "\<forall>k. k < length h \<longleftrightarrow> budgetLeft ?cfg (int k)" by simp
  have cnt: "\<forall>m. maxIterations ?cfg = Some (Finite (of_int m)) \<and> 0 \<le> m \<longrightarrow> int (length h) = m"
    using exhausted_count [OF len] by blast
  have det: "\<forall>f w3. computeTDQ t chat embedClient DEFAULT_WEIGHTS js w2 = (Inr f, w3) \<longrightarrow>
      tdqScore f = tdq (last h) \<and> issues f = entry_issues (last h)"
    if d: "deterministicChat chat \<and> deterministicEmbedding embedClient \<and> h \<noteq> []"
  proof (intro allI impI)
    fix f w3
    assume f: "computeTDQ t chat embedClient DEFAULT_WEIGHTS js w2 = (Inr f, w3)"
    from inv(2) d obtain r w0 where
      r: "computeTDQ t chat embedClient DEFAULT_WEIGHTS js w0 = (Inr r, w2)"
      "tdq (last h) = tdqScore r" "entry_issues (last h) = issues r" by blast
    from d have "fst (computeTDQ t chat embedClient DEFAULT_WEIGHTS js w0)
        = fst (computeTDQ t chat embedClient DEFAULT_WEIGHTS js w2)"
      by (intro computeTDQ_deterministic) simp_all
    with r(1) f have "f = r" by simp
    with r(2,3) show "tdqScore f = tdq (last h) \<and> issues f = entry_issues (last h)" by simp
  qed
  show "\<forall>e\<in>set h. \<not> targetReached ?cfg (tdq e)" by (rule inv(1))
  show "(k < length h) = budgetLeft ?cfg (int k)" for k using len by blast
  show "maxIterations ?cfg = Some (Finite (of_int m)) \<and> 0 \<le> m \<Longrightarrow> int (length h) = m" for m
    using cnt by blast
  show "optimizeTaskDecomposition userInput chat embedClient config js w =
        (case computeTDQ t chat embedClient DEFAULT_WEIGHTS js w2 of
           (Inl err, w3) \<Rightarrow> Some (Inl err, w3)
         | (Inr f, w3) \<Rightarrow>
             Some (Inr \<lparr>finalTree = t, finalTDQ = f,
                        iterations = maxIterations ?cfg, history = h\<rparr>, w3))"
    by (rule optimizeTaskDecomposition_exhausted [OF gen loop])
  show "\<exists>r w0. computeTDQ t chat embedClient DEFAULT_WEIGHTS js w0 = (Inr r, w2) \<and>
            tdq (last h) = tdqScore r \<and> entry_issues (last h) = issues r" if "h \<noteq> []"
    using inv(2) that by blast
  show "tdqScore f = tdq (last h)" "issues f = entry_issues (last h)"
    if "deterministicChat chat \<and> deterministicEmbedding embedClient \<and> h \<noteq> []"
      and "computeTDQ t chat embedClient DEFAULT_WEIGHTS js w2 = (Inr f, w3)" for f w3
    using det [OF that(1)] that(2) by blast+
qed

theorem exhausted_budget_final_evaluation_witness:
  "generateTaskTree ''task'' (answering ''hours'') examplePlatform 0 = (Inr singleTask, 1) \<and>
   optimizeLoop (answering ''hours'') constantEmbedding examplePlatform (mergeConfig twoRounds)
     singleTask [] 0 1
     = Some (Inr (Exhausted singleTask [entryOf 1 lowEvaluation, entryOf 2 lowEvaluation]), 6) \<and>
   deterministicChat (answering ''hours'') \<and> deterministicEmbedding constantEmbedding \<and>
   [entryOf 1 lowEvaluation, entryOf 2 lowEvaluation] \<noteq> [] \<and>
   maxIterations (mergeConfig twoRounds) = Some (Finite (of_int 2)) \<and> (0 :: int) \<le> 2 \<and>
   toNumber (maxIterations (mergeConfig twoRounds)) \<noteq> PosInfinity \<and>
   computeTDQ singleTask (answering ''hours'') constantEmbedding DEFAULT_WEIGHTS examplePlatform 6
     = (Inr lowEvaluation, 8) \<and>
   optimizeTaskDecomposition ''task'' (answering ''hours'') constantEmbedding twoRounds
     examplePlatform 0
     = Some (Inr \<lparr>finalTree = singleTask, finalTDQ = lowEvaluation,
                   iterations = Some (Finite 2),
                   history = [entryOf 1 lowEvaluation, entryOf 2 lowEvaluation]\<rparr>, 8) \<and>
   int (length [entryOf 1 lowEvaluation, entryOf 2 lowEvaluation]) = 2 \<and>
   tdqScore lowEvaluation = tdq (last [entryOf 1 lowEvaluation, entryOf 2 lowEvaluation]) \<and>
   (\<exists>y. optimizeTaskDecomposition ''task'' (answering ''hours'') constantEmbedding twoRounds
          examplePlatform 0 = Some y)"
proof -
  have g: "generateTaskTree ''task'' (answering ''hours'') examplePlatform 0 = (Inr singleTask, 1)"
    by (simp add: example_generate)
  have l: "optimizeLoop (answering ''hours'') constantEmbedding examplePlatform
      (mergeConfig twoRounds) singleTask [] 0 1
     = Some (Inr (Exhausted singleTask [entryOf 1 lowEvaluation, entryOf 2 lowEvaluation]), 6)"
    using example_loop_two_rounds [OF example_target(1) example_budget(1), of 1]
    by (simp add: eval_nat_numeral)
  have c: "computeTDQ singleTask (answering ''hours'') constantEmbedding DEFAULT_WEIGHTS
      examplePlatform 6 = (Inr lowEvaluation, 8)"
    by (simp add: example_computeTDQ eval_nat_numeral)
  have ne: "[entryOf 1 lowEvaluation, entryOf 2 lowEvaluation] \<noteq> []" by simp
  have m: "maxIterations (mergeConfig twoRounds) = Some (Finite (of_int 2))" "(0 :: int) \<le> 2"
    by (simp_all add: example_config)
  have fin: "toNumber (maxIterations (mergeConfig twoRounds)) \<noteq> PosInfinity"
    by (simp add: example_config)
  note whole = exhausted_budget_final_evaluation [where userInput = "''task''"
      and chat = "answering ''hours''" and js = examplePlatform and w = 0
      and embedClient = constantEmbedding and config = twoRounds]
  note inst = whole [THEN conjunct1, rule_format, OF conjI [OF g l]]
  from whole [THEN conjunct2] fin
  have ret: "\<exists>y. optimizeTaskDecomposition ''task'' (answering ''hours'') constantEmbedding
      twoRounds examplePlatform 0 = Some y"
    by (rule mp)
  from inst have run: "optimizeTaskDecomposition ''task'' (answering ''hours'') constantEmbedding
      twoRounds examplePlatform 0 =
        (case computeTDQ singleTask (answering ''hours'') constantEmbedding DEFAULT_WEIGHTS
                examplePlatform 6 of
           (Inl err, w3) \<Rightarrow> Some (Inl err, w3)
         | (Inr f, w3) \<Rightarrow>
             Some (Inr \<lparr>finalTree = singleTask, finalTDQ = f,
                   iterations = maxIterations (mergeConfig twoRounds),
                   history = [entryOf 1 lowEvaluation, entryOf 2 lowEvaluation]\<rparr>, w3))"
    by blast
  from inst have "\<forall>m. maxIterations (mergeConfig twoRounds) = Some (Finite (of_int m)) \<and> 0 \<le> m
      \<longrightarrow> int (length [entryOf 1 lowEvaluation, entryOf 2 lowEvaluation]) = m"
    by blast
  with m have n: "int (length [entryOf 1 lowEvaluation, entryOf 2 lowEvaluation]) = 2"
    by blast
  from inst have "deterministicChat (answering ''hours'') \<and>
      deterministicEmbedding constantEmbedding \<and>
      [entryOf 1 lowEvaluation, entryOf 2 lowEvaluation] \<noteq> [] \<longrightarrow>
      (\<forall>f w3. computeTDQ singleTask (answering ''hours'') constantEmbedding DEFAULT_WEIGHTS
           examplePlatform 6 = (Inr f, w3) \<longrightarrow>
         tdqScore f = tdq (last [entryOf 1 lowEvaluation, entryOf 2 lowEvaluation]) \<and>
         issues f = entry_issues (last [entryOf 1 lowEvaluation, entryOf 2 lowEvaluation]))"
    by blast
  with example_deterministic(1) [of "''hours''"] example_deterministic(2) ne c
  have s: "tdqScore lowEvaluation = tdq (last [entryOf 1 lowEvaluation, entryOf 2 lowEvaluation])"
    by blast
  from run c have r: "optimizeTaskDecomposition ''task'' (answering ''hours'') constantEmbedding
      twoRounds examplePlatform 0
     = Some (Inr \<lparr>finalTree = singleTask, finalTDQ = lowEvaluation,
                   iterations = Some (Finite 2),
                   history = [entryOf 1 lowEvaluation, entryOf 2 lowEvaluation]\<rparr>, 8)"
    by (simp add: example_config)
  from g l example_deterministic(1) [of "''hours''"] example_deterministic(2) ne m fin c r n s ret
  show ?thesis by (intro conjI)
qed

end
